theory Spec2Isabelle
  imports Main
begin

section \<open>Calendar arithmetic of the JavaScript \<open>Date\<close> object\<close>

text \<open>
  The chart component and the CSV parser both work on \<open>Date\<close> objects. A \<open>Date\<close> is a
  time value: the number of milliseconds since 1970-01-01T00:00:00Z, an \<open>int\<close> here.
  The definitions below follow the abstract operations of the ECMAScript specification
  (section "Date Objects"): \<open>Day\<close>, \<open>TimeWithinDay\<close>, \<open>DayFromYear\<close>, \<open>YearFromTime\<close>,
  \<open>MonthFromTime\<close>, \<open>DateFromTime\<close>, \<open>WeekDay\<close>, \<open>MakeDay\<close>, \<open>MakeDate\<close>, \<open>LocalTime\<close>,
  \<open>UTC\<close>. Months are numbered from 0 (January) to 11, week days from 0 (Sunday) to 6.
  The range limit of time values (\<open>TimeClip\<close>, about 270000 years around 1970) is not
  modelled.
\<close>

definition msPerDay :: int where
  "msPerDay = 86400000"

definition Day :: "int \<Rightarrow> int" where
  "Day t = t div msPerDay"

definition TimeWithinDay :: "int \<Rightarrow> int" where
  "TimeWithinDay t = t mod msPerDay"

definition DayFromYear :: "int \<Rightarrow> int" where
  "DayFromYear y =
     365 * (y - 1970) + (y - 1969) div 4 - (y - 1901) div 100 + (y - 1601) div 400"

definition InLeapYear :: "int \<Rightarrow> bool" where
  "InLeapYear y = (y mod 4 = 0 \<and> (y mod 100 \<noteq> 0 \<or> y mod 400 = 0))"

definition DaysInYear :: "int \<Rightarrow> int" where
  "DaysInYear y = (if InLeapYear y then 366 else 365)"

text \<open>
  ECMAScript defines the year of a day as the largest \<open>y\<close> with \<open>DayFromYear y \<le> d\<close>.
  \<open>YearFromDay\<close> computes it: the mean Gregorian year has 146097 / 400 days, which gives
  an estimate that is off by at most one (lemmas \<open>YearFromDay_bounds\<close> and
  \<open>YearFromDay_unique\<close> show that the result is the year ECMAScript defines).
\<close>

definition YearFromDay :: "int \<Rightarrow> int" where
  "YearFromDay d =
     (let y = 1970 + (400 * d) div 146097 in
      if DayFromYear (y + 1) \<le> d then y + 1
      else if d < DayFromYear y then y - 1
      else y)"

definition DayWithinYear :: "int \<Rightarrow> int" where
  "DayWithinYear d = d - DayFromYear (YearFromDay d)"

text \<open>The day within the year on which month \<open>m\<close> (0 to 11) starts.\<close>

definition monthStart :: "bool \<Rightarrow> int \<Rightarrow> int" where
  "monthStart leap m =
     (let l = (if leap then 1 else 0) in
      if m = 0 then 0 else if m = 1 then 31 else if m = 2 then 59 + l
      else if m = 3 then 90 + l else if m = 4 then 120 + l else if m = 5 then 151 + l
      else if m = 6 then 181 + l else if m = 7 then 212 + l else if m = 8 then 243 + l
      else if m = 9 then 273 + l else if m = 10 then 304 + l else 334 + l)"

definition MonthFromDay :: "int \<Rightarrow> int" where
  "MonthFromDay d =
     (let dy = DayWithinYear d; l = (if InLeapYear (YearFromDay d) then 1 else 0) in
      if dy < 31 then 0 else if dy < 59 + l then 1 else if dy < 90 + l then 2
      else if dy < 120 + l then 3 else if dy < 151 + l then 4 else if dy < 181 + l then 5
      else if dy < 212 + l then 6 else if dy < 243 + l then 7 else if dy < 273 + l then 8
      else if dy < 304 + l then 9 else if dy < 334 + l then 10 else 11)"

definition DateFromDay :: "int \<Rightarrow> int" where
  "DateFromDay d =
     DayWithinYear d - monthStart (InLeapYear (YearFromDay d)) (MonthFromDay d) + 1"

definition WeekDay :: "int \<Rightarrow> int" where
  "WeekDay d = (d + 4) mod 7"

text \<open>
  \<open>MakeDay year month date\<close>: the day number of the given date of the given month, where
  a month outside 0..11 carries into the year and a date outside the month carries into
  the neighbouring months (\<open>setDate(0)\<close> is the last day of the previous month).
\<close>

definition MakeDay :: "int \<Rightarrow> int \<Rightarrow> int \<Rightarrow> int" where
  "MakeDay year month date =
     (let ym = year + month div 12; mn = month mod 12 in
      DayFromYear ym + monthStart (InLeapYear ym) mn + date - 1)"

definition MakeDate :: "int \<Rightarrow> int \<Rightarrow> int" where
  "MakeDate day time = day * msPerDay + time"

text \<open>
  The host's time zone decides what the local-time methods of \<open>Date\<close> return. A zone gives
  the offset of local time from UTC in milliseconds, for a UTC time value
  (\<open>utcOffset\<close>, ECMAScript's \<open>LocalTZA(t, true)\<close>) and for a local time value
  (\<open>localOffset\<close>, \<open>LocalTZA(t, false)\<close>). A zone without daylight saving time has one
  constant offset (\<open>fixedZone\<close>): 0 for UTC, 32400000 for Japan.
\<close>

record zone =
  utcOffset :: "int \<Rightarrow> int"
  localOffset :: "int \<Rightarrow> int"

definition fixedZone :: "int \<Rightarrow> zone" where
  "fixedZone k = \<lparr>utcOffset = (\<lambda>t. k), localOffset = (\<lambda>t. k)\<rparr>"

definition LocalTime :: "zone \<Rightarrow> int \<Rightarrow> int" where
  "LocalTime z t = t + utcOffset z t"

definition UTC :: "zone \<Rightarrow> int \<Rightarrow> int" where
  "UTC z t = t - localOffset z t"

text \<open>
  A calendar date string \<open>YYYY-MM-DD\<close> (the \<open>date\<close> column of the store, the chart's
  \<open>startDate\<close> and \<open>endDate\<close>, the keys of the chart's buckets) is represented by the
  day number it denotes, so two such strings are equal exactly when their day numbers
  are. \<open>isoDate 2025 1 3\<close> is the string \<open>2025-01-03\<close>.
  \<open>newDate s\<close> is \<open>new Date(s)\<close> for such a string: midnight UTC of that day.
  \<open>toISODate t\<close> is \<open>t.toISOString().split('T')[0]\<close>: the UTC calendar date of \<open>t\<close>.
  \<open>monthKey y m\<close> is the template string
  \<open>`${y}-${String(m + 1).padStart(2, '0')}-01`\<close>.
\<close>

type_synonym isodate = int

definition isoDate :: "int \<Rightarrow> int \<Rightarrow> int \<Rightarrow> isodate" where
  "isoDate y m d = MakeDay y (m - 1) d"

definition newDate :: "isodate \<Rightarrow> int" where
  "newDate s = s * msPerDay"

definition toISODate :: "int \<Rightarrow> isodate" where
  "toISODate t = Day t"

definition monthKey :: "int \<Rightarrow> int \<Rightarrow> isodate" where
  "monthKey y m = MakeDay y m 1"

definition getDay :: "zone \<Rightarrow> int \<Rightarrow> int" where
  "getDay z t = WeekDay (Day (LocalTime z t))"

definition getDate :: "zone \<Rightarrow> int \<Rightarrow> int" where
  "getDate z t = DateFromDay (Day (LocalTime z t))"

definition getMonth :: "zone \<Rightarrow> int \<Rightarrow> int" where
  "getMonth z t = MonthFromDay (Day (LocalTime z t))"

definition getFullYear :: "zone \<Rightarrow> int \<Rightarrow> int" where
  "getFullYear z t = YearFromDay (Day (LocalTime z t))"

definition setDate :: "zone \<Rightarrow> int \<Rightarrow> int \<Rightarrow> int" where
  "setDate z t dt =
     (let l = LocalTime z t in
      UTC z (MakeDate (MakeDay (YearFromDay (Day l)) (MonthFromDay (Day l)) dt)
                      (TimeWithinDay l)))"

definition setMonth :: "zone \<Rightarrow> int \<Rightarrow> int \<Rightarrow> int" where
  "setMonth z t m =
     (let l = LocalTime z t in
      UTC z (MakeDate (MakeDay (YearFromDay (Day l)) m (DateFromDay (Day l)))
                      (TimeWithinDay l)))"

section \<open>The chart's aggregation engine (\<open>RankChart\<close>)\<close>

datatype TimeAggregation = daily | weekly | monthly

text \<open>A fact as the chart receives it (\<open>RankingData\<close>), and a point of the chart.\<close>

record RankingData =
  date :: isodate
  rank :: int

text \<open>
  \<open>rank = None\<close> is the source's \<open>rank: null\<close>. The sentinel 101 sits in the three
  statistics of an empty bucket.
\<close>

record AggregatedData =
  date :: isodate
  rank :: "int option"
  avgRank :: int
  minRank :: int
  maxRank :: int
  dataPoints :: nat
  isOutOfRange :: bool

text \<open>
  \<open>[...data].sort((a, b) => new Date(a.date).getTime() - new Date(b.date).getTime())\<close>:
  a stable sort by time value.
\<close>

definition sortedData :: "RankingData list \<Rightarrow> RankingData list" where
  "sortedData data = sort_key (\<lambda>a. newDate (RankingData.date a)) data"

text \<open>
  The \<open>while (currentDate <= end)\<close> loop of \<open>generateDateRange\<close>. Whether it ends depends
  on the zone, so the loop is a partial function: \<open>None\<close> stands for a loop that runs
  forever.
\<close>

partial_function (option) generateDateRange_loop ::
  "zone \<Rightarrow> int \<Rightarrow> int \<Rightarrow> isodate list \<Rightarrow> isodate list option" where
  "generateDateRange_loop z currentDate end' dates =
     (if currentDate \<le> end'
      then generateDateRange_loop z (setDate z currentDate (getDate z currentDate + 1)) end'
             (dates @ [toISODate currentDate])
      else Some dates)"

declare generateDateRange_loop.simps [code]

definition generateDateRange :: "zone \<Rightarrow> int \<Rightarrow> int \<Rightarrow> isodate list option" where
  "generateDateRange z start end' = generateDateRange_loop z start end' []"

text \<open>
  The start of the week of a \<open>Date\<close>, as both the bucket generator and the grouping
  compute it: \<open>day = d.getDay(); diff = d.getDate() - day + (day === 0 ? -6 : 1);
  d.setDate(diff)\<close>.
\<close>

definition startOfWeek :: "zone \<Rightarrow> int \<Rightarrow> int" where
  "startOfWeek z d =
     (let day = getDay z d;
          diff = getDate z d - day + (if day = 0 then - 6 else 1)
      in setDate z d diff)"

partial_function (option) weekly_loop ::
  "zone \<Rightarrow> int \<Rightarrow> int \<Rightarrow> isodate list \<Rightarrow> isodate list option" where
  "weekly_loop z current end' periods =
     (if current \<le> end'
      then weekly_loop z (setDate z current (getDate z current + 7)) end'
             (periods @ [toISODate current])
      else Some periods)"

partial_function (option) monthly_loop ::
  "zone \<Rightarrow> int \<Rightarrow> int \<Rightarrow> isodate list \<Rightarrow> isodate list option" where
  "monthly_loop z current end' periods =
     (if current \<le> end'
      then monthly_loop z (setMonth z current (getMonth z current + 1)) end'
             (periods @ [monthKey (getFullYear z current) (getMonth z current)])
      else Some periods)"

declare weekly_loop.simps [code]

declare monthly_loop.simps [code]

text \<open>\<open>generatePeriodRange\<close> is called with \<open>weekly\<close> or \<open>monthly\<close> only.\<close>

definition generatePeriodRange ::
  "zone \<Rightarrow> int \<Rightarrow> int \<Rightarrow> TimeAggregation \<Rightarrow> isodate list option" where
  "generatePeriodRange z start end' type =
     (if type = weekly then weekly_loop z (startOfWeek z start) end' []
      else monthly_loop z (setDate z start 1) end' [])"

definition groupKey :: "zone \<Rightarrow> TimeAggregation \<Rightarrow> RankingData \<Rightarrow> isodate" where
  "groupKey z aggregation item =
     (let date = newDate (RankingData.date item) in
      if aggregation = weekly then toISODate (startOfWeek z date)
      else monthKey (getFullYear z date) (getMonth z date))"

text \<open>The two \<open>Map\<close>s of the component, filled by \<open>forEach\<close> over the sorted facts.\<close>

definition dataMap :: "RankingData list \<Rightarrow> (isodate \<rightharpoonup> RankingData)" where
  "dataMap srt = fold (\<lambda>item m. m(RankingData.date item \<mapsto> item)) srt Map.empty"

definition groups ::
  "zone \<Rightarrow> TimeAggregation \<Rightarrow> RankingData list \<Rightarrow> (isodate \<rightharpoonup> RankingData list)" where
  "groups z aggregation srt =
     fold (\<lambda>item m.
             let k = groupKey z aggregation item in
             case m k of None \<Rightarrow> m(k \<mapsto> [item]) | Some g \<Rightarrow> m(k \<mapsto> g @ [item]))
          srt Map.empty"

definition outOfRangePoint :: "isodate \<Rightarrow> AggregatedData" where
  "outOfRangePoint d =
     \<lparr>date = d, rank = None, avgRank = 101, minRank = 101, maxRank = 101,
      dataPoints = 0, isOutOfRange = True\<rparr>"

definition dailyPoint :: "(isodate \<rightharpoonup> RankingData) \<Rightarrow> isodate \<Rightarrow> AggregatedData" where
  "dailyPoint m d =
     (case m d of
        Some existingData \<Rightarrow>
          \<lparr>date = RankingData.date existingData, rank = Some (RankingData.rank existingData),
           avgRank = RankingData.rank existingData, minRank = RankingData.rank existingData,
           maxRank = RankingData.rank existingData, dataPoints = 1, isOutOfRange = False\<rparr>
      | None \<Rightarrow> outOfRangePoint d)"

text \<open>
  \<open>Math.round(sum / n)\<close> for integers \<open>sum\<close> and \<open>n > 0\<close>: the quotient rounded to the
  nearest integer, a half rounded up. (The source divides in floating point, which
  agrees with the exact quotient for sums below \<open>2^52\<close>.)
  \<open>Math.min(...ranks)\<close> and \<open>Math.max(...ranks)\<close> are applied to non-empty lists only.
\<close>

definition roundDiv :: "int \<Rightarrow> int \<Rightarrow> int" where
  "roundDiv s n = (2 * s + n) div (2 * n)"

definition periodPoint :: "(isodate \<rightharpoonup> RankingData list) \<Rightarrow> isodate \<Rightarrow> AggregatedData" where
  "periodPoint g periodKey =
     (case g periodKey of
        Some groupData \<Rightarrow>
          if groupData \<noteq> [] then
            (let ranks = map RankingData.rank groupData;
                 avg = roundDiv (sum_list ranks) (int (length ranks))
             in \<lparr>date = periodKey, rank = Some avg, avgRank = avg, minRank = Min (set ranks),
                 maxRank = Max (set ranks), dataPoints = length ranks, isOutOfRange = False\<rparr>)
          else outOfRangePoint periodKey
      | None \<Rightarrow> outOfRangePoint periodKey)"

text \<open>
  \<open>aggregatedData\<close>: the component's memo. \<open>startDate\<close> and \<open>endDate\<close> are optional
  props; \<open>None\<close> is a prop that is missing or empty. With no range and no facts the
  result is the empty list.
\<close>

definition dateRange ::
  "RankingData list \<Rightarrow> isodate option \<Rightarrow> isodate option \<Rightarrow> (int \<times> int) option" where
  "dateRange srt startDate endDate =
     (case (startDate, endDate) of
        (Some s, Some e) \<Rightarrow> Some (newDate s, newDate e)
      | _ \<Rightarrow> if srt \<noteq> []
             then Some (newDate (RankingData.date (hd srt)),
                        newDate (RankingData.date (last srt)))
             else None)"

definition aggregatedData ::
  "zone \<Rightarrow> TimeAggregation \<Rightarrow> RankingData list \<Rightarrow> isodate option \<Rightarrow> isodate option
     \<Rightarrow> AggregatedData list option" where
  "aggregatedData z aggregation data startDate endDate =
     (let srt = sortedData data in
      case dateRange srt startDate endDate of
        None \<Rightarrow> Some []
      | Some (dateRangeStart, dateRangeEnd) \<Rightarrow>
          if aggregation = daily then
            map_option (map (dailyPoint (dataMap srt)))
              (generateDateRange z dateRangeStart dateRangeEnd)
          else
            map_option (map (periodPoint (groups z aggregation srt)))
              (generatePeriodRange z dateRangeStart dateRangeEnd aggregation))"

text \<open>
  A zone with daylight saving time: US Pacific time around 2025-03-09, when the clocks
  went from 02:00 to 03:00 local time (10:00 UTC): eight hours behind UTC before, seven
  after. A local time in the skipped hour is read with the offset before the change.
\<close>

definition pacificSpring2025 :: zone where
  "pacificSpring2025 =
     \<lparr>utcOffset = (\<lambda>t. if t < 1741514400000 then - 28800000 else - 25200000),
      localOffset = (\<lambda>t. if t < 1741489200000 then - 28800000 else - 25200000)\<rparr>"

subsection \<open>The axis scale calculator (\<open>yAxisDomain\<close>)\<close>

text \<open>The upper end of the domain is the string \<open>'auto'\<close> or a number.\<close>

datatype axisBound = Auto | Bound int

definition validRanks :: "AggregatedData list \<Rightarrow> int list" where
  "validRanks aggregated =
     List.map_filter (\<lambda>item. if \<not> isOutOfRange item then AggregatedData.rank item else None)
       aggregated"

definition yAxisDomain :: "AggregatedData list \<Rightarrow> int \<times> axisBound" where
  "yAxisDomain aggregated =
     (if aggregated = [] then (1, Auto)
      else if validRanks aggregated = [] then (1, Bound 100)
      else (1, Bound (Max (set (validRanks aggregated)) + 5)))"

section \<open>JavaScript strings\<close>

text \<open>
  A JavaScript string is a sequence of UTF-16 code units, each a number from 0 to
  65535, an \<open>int list\<close> here;
  \<open>js ''abc''\<close> is the string of an ASCII literal. The labels of the export file
  are written by their code units.
\<close>

type_synonym jsstring = "int list"

definition js :: "string \<Rightarrow> jsstring" where
  "js s = map of_char s"

text \<open>White space and line terminators of ECMAScript, as \<open>trim\<close> and \<open>parseInt\<close> strip them.\<close>

definition isWhiteSpace :: "int \<Rightarrow> bool" where
  "isWhiteSpace c =
     (c = 9 \<or> c = 10 \<or> c = 11 \<or> c = 12 \<or> c = 13 \<or> c = 32 \<or> c = 160 \<or> c = 5760
      \<or> (8192 \<le> c \<and> c \<le> 8202) \<or> c = 8232 \<or> c = 8233 \<or> c = 8239 \<or> c = 8287
      \<or> c = 12288 \<or> c = 65279)"

definition trim :: "jsstring \<Rightarrow> jsstring" where
  "trim s = rev (dropWhile isWhiteSpace (rev (dropWhile isWhiteSpace s)))"

text \<open>\<open>s.split(c)\<close> for a separator of one code unit; the result is never empty.\<close>

fun split :: "int \<Rightarrow> jsstring \<Rightarrow> jsstring list" where
  "split c [] = [[]]"
| "split c (x # xs) =
     (if x = c then [] # split c xs
      else (case split c xs of [] \<Rightarrow> [[x]] | w # ws \<Rightarrow> (x # w) # ws))"

definition startsWith :: "jsstring \<Rightarrow> jsstring \<Rightarrow> bool" where
  "startsWith s p = (take (length p) s = p)"

fun jsIncludes :: "jsstring \<Rightarrow> jsstring \<Rightarrow> bool" where
  "jsIncludes [] p = (p = [])"
| "jsIncludes (x # xs) p = (startsWith (x # xs) p \<or> jsIncludes xs p)"

text \<open>
  \<open>toLowerCase\<close>. The parser searches the result for ASCII words only, so the model
  lowers exactly the code units whose lower case holds an ASCII letter: \<open>A\<close> to \<open>Z\<close>, the
  Kelvin sign U+212A (lower case \<open>k\<close>) and U+0130 (lower case \<open>i\<close> followed by U+0307).
  Every other code unit has a lower case without ASCII letters and is left as it is.
\<close>

definition lowerUnit :: "int \<Rightarrow> jsstring" where
  "lowerUnit c =
     (if 65 \<le> c \<and> c \<le> 90 then [c + 32]
      else if c = 8490 then [107]
      else if c = 304 then [105, 775]
      else [c])"

definition toLowerCase :: "jsstring \<Rightarrow> jsstring" where
  "toLowerCase s = concat (map lowerUnit s)"

section \<open>JavaScript numbers read by \<open>parseInt\<close>\<close>

text \<open>
  \<open>parseInt\<close> returns a Number, a double: \<open>NaN\<close>, an integer that a double represents,
  or an infinity. \<open>NaN\<close> is the \<open>None\<close> of \<open>number option\<close>. The parser tests a result with
  \<open>isNaN\<close> and \<open>> 0\<close> only; these tests, the key of a \<open>Map\<close> and JSON do not tell \<open>-0\<close>
  from \<open>0\<close>, so the model has one zero.
\<close>

datatype number = Finite int | PlusInfinity | MinusInfinity

text \<open>\<open>n > 0\<close> for a number that is not \<open>NaN\<close>.\<close>

definition isPositive :: "number \<Rightarrow> bool" where
  "isPositive n = (case n of Finite i \<Rightarrow> 0 < i | PlusInfinity \<Rightarrow> True | MinusInfinity \<Rightarrow> False)"

text \<open>The number of bits of a positive integer; 0 for the others.\<close>

function bitLength :: "int \<Rightarrow> nat" where
  "bitLength a = (if a \<le> 0 then 0 else Suc (bitLength (a div 2)))"
  by auto

termination
  by (relation "measure nat") auto

declare bitLength.simps [simp del]

text \<open>
  The Number value for an integer (ECMAScript's conversion of a mathematical value to a
  double). \<open>roundedMagnitude a\<close> is the double nearest to \<open>a \<ge> 0\<close>, were the exponent of a
  double unbounded: \<open>a\<close> itself when it has at most 53 bits, otherwise \<open>a\<close> rounded to 53
  significant bits, to the nearest, a tie to the even one. The Number value is an
  infinity when the rounded magnitude reaches \<open>2^1024\<close>.
\<close>

definition roundedMagnitude :: "int \<Rightarrow> int" where
  "roundedMagnitude a =
     (let e = int (bitLength a) - 53 in
      if e \<le> 0 then a
      else
        (let p = 2 ^ nat e; q = a div p; r = a mod p
         in (if p < 2 * r \<or> (2 * r = p \<and> odd q) then q + 1 else q) * p))"

definition numberValue :: "int \<Rightarrow> number" where
  "numberValue x =
     (let m = roundedMagnitude \<bar>x\<bar> in
      if 2 ^ 1024 \<le> m then (if x < 0 then MinusInfinity else PlusInfinity)
      else Finite (if x < 0 then - m else m))"

text \<open>
  \<open>parseInt(s)\<close> without a radix: leading white space, an optional sign, an optional
  \<open>0x\<close> prefix (then base 16), and the longest run of digits; the rest of the string is
  ignored. With no digit the result is \<open>NaN\<close>, else the Number value for the signed
  integer the digits denote. (For more than 20 significant decimal digits ECMAScript
  lets an implementation read the later digits as 0; the model reads every digit.)
\<close>

definition digitValue :: "int \<Rightarrow> int option" where
  "digitValue c =
     (if 48 \<le> c \<and> c \<le> 57 then Some (c - 48)
      else if 97 \<le> c \<and> c \<le> 122 then Some (c - 87)
      else if 65 \<le> c \<and> c \<le> 90 then Some (c - 55)
      else None)"

definition isRadixDigit :: "int \<Rightarrow> int \<Rightarrow> bool" where
  "isRadixDigit radix c = (case digitValue c of None \<Rightarrow> False | Some v \<Rightarrow> v < radix)"

definition digitsValue :: "int \<Rightarrow> jsstring \<Rightarrow> int" where
  "digitsValue radix ds = foldl (\<lambda>a c. radix * a + the (digitValue c)) 0 ds"

definition parseInt :: "jsstring \<Rightarrow> number option" where
  "parseInt s =
     (let s1 = dropWhile isWhiteSpace s;
          sign = (if s1 \<noteq> [] \<and> hd s1 = 45 then - 1 else 1);
          s2 = (if s1 \<noteq> [] \<and> (hd s1 = 45 \<or> hd s1 = 43) then tl s1 else s1);
          hex = (startsWith s2 (js ''0x'') \<or> startsWith s2 (js ''0X''));
          radix = (if hex then 16 else 10);
          s3 = (if hex then drop 2 s2 else s2);
          ds = takeWhile (isRadixDigit radix) s3
      in if ds = [] then None else Some (numberValue (sign * digitsValue radix ds)))"

section \<open>The CSV parser (\<open>parsePascalCsv\<close>, \<open>validatePascalCsv\<close>)\<close>

text \<open>
  The parser's output: entities (the source's field \<open>keywords\<close>, here \<open>csvKeywords\<close>)
  and facts (\<open>rankings\<close>, here \<open>csvRankings\<close>).
\<close>

record PascalKeywordData =
  pascal_id :: number
  keyword_text :: jsstring
  monthly_search_volume :: "number option"
  domain_url :: "jsstring option"
  site_name :: "jsstring option"
  rank_type :: "jsstring option"
  area :: "jsstring option"
  device_type :: "jsstring option"
  landing_page :: "jsstring option"

record PascalRankingData =
  pascal_id :: number
  date :: isodate
  rank :: number

record PascalCsvData =
  csvKeywords :: "PascalKeywordData list"
  csvRankings :: "PascalRankingData list"

text \<open>The three \<open>throw new Error(...)\<close> of the parser.\<close>

datatype parseError =
    TooFewLines
  | MissingRequiredColumns
  | NoDateColumns

subsection \<open>The schema mapper\<close>

text \<open>
  The keys of \<open>columnMap\<close>: \<open>pascal_id\<close>, \<open>keyword\<close>, \<open>search_volume\<close>, \<open>domain_url\<close>,
  \<open>site_name\<close>, \<open>rank_type\<close>, \<open>area\<close>, \<open>device_type\<close>, \<open>landing_page\<close>.
\<close>

datatype column =
    PascalId | Keyword | SearchVolume | DomainUrl | SiteName | RankType | Area
  | DeviceType | LandingPage

text \<open>
  The \<open>if ... else if\<close> chain of the header loop: the field a header cell stands for,
  the first test that holds deciding. The Japanese labels are, in order,
  \<open>keyword\<close> (katakana), \<open>monthly searches\<close>, \<open>domain\<close>, \<open>site name\<close>, \<open>rank acquisition\<close>,
  \<open>area\<close>, \<open>kind\<close> and \<open>landing\<close>.
\<close>

definition classify :: "jsstring \<Rightarrow> column option" where
  "classify h =
     (let lowerHeader = toLowerCase h in
      if jsIncludes h (js ''Pascal ID'') \<or> jsIncludes h (js ''pascal id'') then Some PascalId
      else if jsIncludes h [12461, 12540, 12527, 12540, 12489] \<or> jsIncludes lowerHeader (js ''keyword'')
        then Some Keyword
      else if jsIncludes h [26376, 38291, 26908, 32034, 25968]
              \<or> jsIncludes lowerHeader (js ''search volume'')
        then Some SearchVolume
      else if jsIncludes h [12489, 12513, 12452, 12531] \<or> jsIncludes lowerHeader (js ''domain'')
        then Some DomainUrl
      else if jsIncludes h [12469, 12452, 12488, 21517] \<or> jsIncludes lowerHeader (js ''site'')
        then Some SiteName
      else if jsIncludes h [38918, 20301, 21462, 24471] \<or> jsIncludes lowerHeader (js ''rank type'')
        then Some RankType
      else if jsIncludes h [12456, 12522, 12450] \<or> jsIncludes lowerHeader (js ''area'')
        then Some Area
      else if jsIncludes h [31278, 21029] \<or> jsIncludes lowerHeader (js ''device'')
        then Some DeviceType
      else if jsIncludes h [12521, 12531, 12487, 12451, 12531, 12464]
              \<or> jsIncludes lowerHeader (js ''landing'')
        then Some LandingPage
      else None)"

text \<open>\<open>headers.forEach((h, index) => ...)\<close>: every cell that stands for a field assigns its index.\<close>

definition columnMap :: "jsstring list \<Rightarrow> (column \<rightharpoonup> nat)" where
  "columnMap headers =
     fold (\<lambda>(index, h) m. case classify h of None \<Rightarrow> m | Some f \<Rightarrow> m(f \<mapsto> index))
          (zip [0..<length headers] headers) Map.empty"

text \<open>
  The three date patterns: four digits, a separator, one or two digits, a separator, one
  or two digits, and for the first pattern the closing sign. A pattern matches anywhere
  in the cell, the leftmost match counting. A group of one or two digits takes two digits
  where two stand;
  taking one instead never helps, since what follows in the pattern is not a digit or
  is nothing.
\<close>

definition isDigit :: "int \<Rightarrow> bool" where
  "isDigit c = (48 \<le> c \<and> c \<le> 57)"

definition oneOrTwoDigits :: "jsstring \<Rightarrow> (jsstring \<times> jsstring) option" where
  "oneOrTwoDigits s =
     (if 2 \<le> length s \<and> isDigit (s ! 0) \<and> isDigit (s ! 1) then Some (take 2 s, drop 2 s)
      else if 1 \<le> length s \<and> isDigit (s ! 0) then Some (take 1 s, drop 1 s)
      else None)"

definition literal :: "int \<Rightarrow> jsstring \<Rightarrow> jsstring option" where
  "literal c s = (if s \<noteq> [] \<and> hd s = c then Some (tl s) else None)"

record datePattern =
  sep1 :: int
  sep2 :: int
  closing :: "int option"

definition matchHere :: "datePattern \<Rightarrow> jsstring \<Rightarrow> (jsstring \<times> jsstring \<times> jsstring) option" where
  "matchHere p s =
     (if 4 \<le> length s \<and> list_all isDigit (take 4 s) then
        (case literal (sep1 p) (drop 4 s) of
           None \<Rightarrow> None
         | Some r1 \<Rightarrow>
             (case oneOrTwoDigits r1 of
                None \<Rightarrow> None
              | Some (m, r2) \<Rightarrow>
                  (case literal (sep2 p) r2 of
                     None \<Rightarrow> None
                   | Some r3 \<Rightarrow>
                       (case oneOrTwoDigits r3 of
                          None \<Rightarrow> None
                        | Some (d, r4) \<Rightarrow>
                            (case closing p of
                               None \<Rightarrow> Some (take 4 s, m, d)
                             | Some c \<Rightarrow>
                                 (case literal c r4 of
                                    None \<Rightarrow> None
                                  | Some r5 \<Rightarrow> Some (take 4 s, m, d)))))))
      else None)"

fun matchPattern :: "datePattern \<Rightarrow> jsstring \<Rightarrow> (jsstring \<times> jsstring \<times> jsstring) option" where
  "matchPattern p [] = matchHere p []"
| "matchPattern p (x # xs) =
     (case matchHere p (x # xs) of Some r \<Rightarrow> Some r | None \<Rightarrow> matchPattern p xs)"

text \<open>
  The patterns in the source's order: year sign, month sign, day sign; slashes; hyphens.
\<close>

definition datePatterns :: "datePattern list" where
  "datePatterns =
     [\<lparr>sep1 = 24180, sep2 = 26376, closing = Some 26085\<rparr>,
      \<lparr>sep1 = 47, sep2 = 47, closing = None\<rparr>,
      \<lparr>sep1 = 45, sep2 = 45, closing = None\<rparr>]"

text \<open>
  \<open>new Date(Date.UTC(year, month - 1, day)).toISOString().split('T')[0]\<close>.
  \<open>Date.UTC\<close> reads a year from 0 to 99 as 1900 plus that year. The three groups of a
  match hold one to four decimal digits, so \<open>parseInt\<close> gives a finite integer for each.
\<close>

definition utcDateString :: "int \<Rightarrow> int \<Rightarrow> int \<Rightarrow> isodate" where
  "utcDateString year month day =
     (let yr = (if 0 \<le> year \<and> year \<le> 99 then 1900 + year else year)
      in toISODate (MakeDate (MakeDay yr (month - 1) day) 0))"

fun firstMatch :: "datePattern list \<Rightarrow> jsstring \<Rightarrow> (jsstring \<times> jsstring \<times> jsstring) option" where
  "firstMatch [] h = None"
| "firstMatch (p # ps) h =
     (case matchPattern p h of Some r \<Rightarrow> Some r | None \<Rightarrow> firstMatch ps h)"

definition headerDate :: "jsstring \<Rightarrow> isodate option" where
  "headerDate h =
     (case firstMatch datePatterns h of
        None \<Rightarrow> None
      | Some (y, m, d) \<Rightarrow>
          (case (parseInt y, parseInt m, parseInt d) of
             (Some (Finite year), Some (Finite month), Some (Finite day)) \<Rightarrow>
               Some (utcDateString year month day)
           | _ \<Rightarrow> None))"

definition dateColumns :: "jsstring list \<Rightarrow> (nat \<times> isodate) list" where
  "dateColumns headers =
     List.map_filter (\<lambda>(index, h). map_option (\<lambda>d. (index, d)) (headerDate h))
       (zip [0..<length headers] headers)"

subsection \<open>The row parser\<close>

text \<open>\<open>values[i]\<close>: \<open>undefined\<close> (\<open>None\<close>) beyond the end of the row.\<close>

definition cell :: "jsstring list \<Rightarrow> nat \<Rightarrow> jsstring option" where
  "cell vals i = (if i < length vals then Some (vals ! i) else None)"

text \<open>\<open>values[i] || undefined\<close>, for a mapped optional column.\<close>

definition optionalField :: "(column \<rightharpoonup> nat) \<Rightarrow> jsstring list \<Rightarrow> column \<Rightarrow> jsstring option" where
  "optionalField cm vals f =
     (case cm f of
        None \<Rightarrow> None
      | Some i \<Rightarrow> (case cell vals i of None \<Rightarrow> None | Some v \<Rightarrow> if v = [] then None else Some v))"

definition searchVolume :: "(column \<rightharpoonup> nat) \<Rightarrow> jsstring list \<Rightarrow> number option" where
  "searchVolume cm vals =
     (case optionalField cm vals SearchVolume of
        None \<Rightarrow> None
      | Some volume \<Rightarrow> if volume \<noteq> js ''-'' \<and> volume \<noteq> [] then parseInt volume else None)"

text \<open>
  The body of \<open>dateColumns.forEach\<close> for one date column: no fact, or one.
\<close>

definition dateCell :: "number \<Rightarrow> jsstring list \<Rightarrow> nat \<times> isodate \<Rightarrow> PascalRankingData list" where
  "dateCell pascalId vals col =
     (case cell vals (fst col) of
        None \<Rightarrow> []
      | Some rankValue \<Rightarrow>
          if rankValue \<noteq> [] \<and> rankValue \<noteq> js ''-'' then
            (case parseInt rankValue of
               None \<Rightarrow> []
             | Some r \<Rightarrow>
                 if isPositive r
                 then [\<lparr>PascalRankingData.pascal_id = pascalId, date = snd col, rank = r\<rparr>]
                 else [])
          else [])"

text \<open>\<open>Math.max(...Object.values(columnMap)) + 1\<close>: the cells a row must have.\<close>

definition allColumns :: "column list" where
  "allColumns =
     [PascalId, Keyword, SearchVolume, DomainUrl, SiteName, RankType, Area, DeviceType,
      LandingPage]"

definition requiredCells :: "(column \<rightharpoonup> nat) \<Rightarrow> nat" where
  "requiredCells cm = Max (set (List.map_filter cm allColumns)) + 1"

text \<open>
  One data row: \<open>None\<close> when the row is skipped (too few cells, an identifier that is
  not a number, an empty keyword), else the entity and the facts of the row. The row
  parser runs only when \<open>pascal_id\<close> and \<open>keyword\<close> are mapped.
\<close>

definition parseRow ::
  "(column \<rightharpoonup> nat) \<Rightarrow> (nat \<times> isodate) list \<Rightarrow> jsstring
     \<Rightarrow> (PascalKeywordData \<times> PascalRankingData list) option" where
  "parseRow cm dcs line =
     (let vals = map trim (split 44 line) in
      if length vals < requiredCells cm then None
      else
        (case parseInt (vals ! the (cm PascalId)) of
           None \<Rightarrow> None
         | Some pascalId \<Rightarrow>
             (let keywordText = vals ! the (cm Keyword) in
              if keywordText = [] then None
              else
                Some (\<lparr>PascalKeywordData.pascal_id = pascalId,
                       keyword_text = keywordText,
                       monthly_search_volume = searchVolume cm vals,
                       domain_url = optionalField cm vals DomainUrl,
                       site_name = optionalField cm vals SiteName,
                       rank_type = optionalField cm vals RankType,
                       area = optionalField cm vals Area,
                       device_type = optionalField cm vals DeviceType,
                       landing_page = optionalField cm vals LandingPage\<rparr>,
                      concat (map (dateCell pascalId vals) dcs)))))"

definition parsePascalCsv :: "jsstring \<Rightarrow> parseError + PascalCsvData" where
  "parsePascalCsv csvContent =
     (let lines = split 10 (trim csvContent) in
      if length lines < 2 then Inl TooFewLines
      else
        (let headers = map trim (split 44 (hd lines));
             cm = columnMap headers;
             dcs = dateColumns headers
         in if cm PascalId = None \<or> cm Keyword = None then Inl MissingRequiredColumns
            else if dcs = [] then Inl NoDateColumns
            else
              (let rows = List.map_filter (parseRow cm dcs) (tl lines)
               in Inr \<lparr>csvKeywords = map fst rows, csvRankings = concat (map snd rows)\<rparr>)))"

subsection \<open>The validator\<close>

text \<open>The messages \<open>validatePascalCsv\<close> collects; \<open>InsufficientData n\<close> names row \<open>n\<close>.\<close>

datatype validationError =
    NeedsHeaderAndRow
  | NeedsPascalIdColumn
  | NeedsKeywordColumn
  | NeedsDateColumns
  | InsufficientData nat

definition hasDate :: "jsstring \<Rightarrow> bool" where
  "hasDate h = (firstMatch datePatterns h \<noteq> None)"

definition validatePascalCsv :: "jsstring \<Rightarrow> validationError list" where
  "validatePascalCsv csvContent =
     (let lines = split 10 (trim csvContent) in
      if length lines < 2 then [NeedsHeaderAndRow]
      else
        (let headers = map trim (split 44 (hd lines));
             hasPascalId =
               list_ex (\<lambda>h. jsIncludes h (js ''Pascal ID'') \<or> jsIncludes h (js ''pascal id'')) headers;
             hasKeyword =
               list_ex (\<lambda>h. jsIncludes h [12461, 12540, 12527, 12540, 12489]
                            \<or> jsIncludes (toLowerCase h) (js ''keyword'')) headers;
             dateCount = length (filter hasDate headers);
             sampleRows = take 3 (tl lines)
         in (if hasPascalId then [] else [NeedsPascalIdColumn])
            @ (if hasKeyword then [] else [NeedsKeywordColumn])
            @ (if dateCount = 0 then [NeedsDateColumns] else [])
            @ concat (map (\<lambda>(i, row).
                             if 2 * length (split 44 row) < length headers
                             then [InsufficientData (i + 2)] else [])
                          (zip [0..<length sampleRows] sampleRows))))"

section \<open>The import orchestrator (\<open>importPascalCsv\<close>)\<close>

subsection \<open>The persistence gateway\<close>

text \<open>
  The two services the orchestrator calls, \<open>pascalKeywordService.upsert\<close> and
  \<open>pascalRankingService.bulkUpsertRankings\<close>, send one request each to a hosted
  database and throw the error of a failed request. The orchestrator is modelled for
  any gateway: a request takes the store to a new store and either succeeds or fails
  with a message. Of the row an entity upsert returns the orchestrator reads the
  surrogate id only. A fact row is (surrogate id, date, rank).
\<close>

type_synonym kwid = nat

type_synonym rankingRow = "kwid \<times> isodate \<times> number"

record 's gateway =
  upsertKeyword :: "'s \<Rightarrow> PascalKeywordData \<Rightarrow> 's \<times> (string + kwid)"
  bulkUpsertRankings :: "'s \<Rightarrow> rankingRow list \<Rightarrow> 's \<times> string option"

text \<open>The requests issued, in order: not part of the source's result, kept to state what was sent.\<close>

datatype request =
    UpsertKeyword PascalKeywordData
  | BulkUpsertRankings "rankingRow list"

subsection \<open>The result and the errors\<close>

text \<open>
  What can be thrown inside the orchestrator's \<open>try\<close>: an error of the parser, the error
  of a failed request, or whatever the progress callback throws.
\<close>

datatype thrown =
    ParseError parseError
  | GatewayError string
  | CallbackError

text \<open>
  The messages of \<open>result.errors\<close>, by their template: the validator's messages,
  \<open>No valid keywords found in CSV\<close>, \<open>Failed to import keyword Pascal ID ...\<close>,
  \<open>Keyword not found for Pascal ID ..., skipping rankings\<close>,
  \<open>Failed to import rankings for Pascal ID ...\<close> and \<open>Import failed: ...\<close>.
\<close>

datatype importError =
    Invalid validationError
  | NoValidKeywords
  | KeywordFailed number string
  | KeywordNotFound number
  | RankingsFailed number thrown
  | ImportFailed thrown

text \<open>
  \<open>PascalImportResult\<close>. The summary text is built from four counters, kept here as
  they are; \<open>None\<close> is the empty summary of a run that ended early.
\<close>

record PascalImportResult =
  success :: bool
  totalKeywords :: nat
  importedKeywords :: nat
  updatedKeywords :: nat
  totalRankings :: nat
  importedRankings :: nat
  errors :: "importError list"
  summary :: "(nat \<times> nat \<times> nat \<times> nat) option"

definition initialResult :: PascalImportResult where
  "initialResult =
     \<lparr>success = False, totalKeywords = 0, importedKeywords = 0, updatedKeywords = 0,
      totalRankings = 0, importedRankings = 0, errors = [], summary = None\<rparr>"

text \<open>The state of a run: the result so far, the store, the requests sent, and \<open>keywordIdMap\<close>.\<close>

record 's run =
  result :: PascalImportResult
  db :: 's
  requests :: "request list"
  keywordIdMap :: "number \<rightharpoonup> kwid"

definition addError :: "importError \<Rightarrow> 's run \<Rightarrow> 's run" where
  "addError e st = st\<lparr>result := (result st)\<lparr>errors := errors (result st) @ [e]\<rparr>\<rparr>"

text \<open>
  A step inside the \<open>try\<close> either goes on with a new state (\<open>Inr\<close>) or throws (\<open>Inl\<close>), the
  state being what it was when the error was thrown. \<open>progressCallback?.(current, 10,
  message)\<close>: the callback is optional; it is given by the calls on which it throws (the
  message is not modelled).
\<close>

type_synonym 's step = "(thrown \<times> 's run) + 's run"

definition progress :: "(nat \<Rightarrow> nat \<Rightarrow> bool) option \<Rightarrow> nat \<Rightarrow> 's run \<Rightarrow> 's step" where
  "progress progressCallback current st =
     (case progressCallback of
        None \<Rightarrow> Inr st
      | Some f \<Rightarrow> if f current 10 then Inl (CallbackError, st) else Inr st)"

definition andThen :: "'s step \<Rightarrow> ('s run \<Rightarrow> 's step) \<Rightarrow> 's step" where
  "andThen r f = (case r of Inl e \<Rightarrow> Inl e | Inr st \<Rightarrow> f st)"

subsection \<open>Importing the entities\<close>

text \<open>
  One member of a batch: the upsert inside its own \<open>try\<close>. The members of a batch are
  started together and awaited with \<open>Promise.all\<close>; the model sends their requests one
  after the other in the order of the batch.
\<close>

definition importKeyword :: "'s gateway \<Rightarrow> PascalKeywordData \<Rightarrow> 's run \<Rightarrow> 's run" where
  "importKeyword gw keywordData st =
     (let (s', r) = upsertKeyword gw (db st) keywordData;
          st1 = st\<lparr>db := s', requests := requests st @ [UpsertKeyword keywordData]\<rparr>
      in case r of
           Inr i \<Rightarrow>
             st1\<lparr>keywordIdMap := (keywordIdMap st1)(PascalKeywordData.pascal_id keywordData \<mapsto> i),
                 result := (result st1)\<lparr>importedKeywords := importedKeywords (result st1) + 1\<rparr>\<rparr>
         | Inl msg \<Rightarrow>
             addError (KeywordFailed (PascalKeywordData.pascal_id keywordData) msg) st1)"

text \<open>
  \<open>for (let i = 0; i < keywords.length; i += 50)\<close>, with the progress call after each
  batch. \<open>Math.min(7, 3 + Math.floor((i / n) * 4))\<close> is computed on integers (the
  floating point quotient gives the same floor for every list shorter than \<open>2^51\<close>).
\<close>

function importKeywords ::
  "'s gateway \<Rightarrow> (nat \<Rightarrow> nat \<Rightarrow> bool) option \<Rightarrow> PascalKeywordData list \<Rightarrow> nat \<Rightarrow> 's run
     \<Rightarrow> 's step" where
  "importKeywords gw cb kws i st =
     (if i < length kws then
        (let batch = take 50 (drop i kws);
             st1 = fold (importKeyword gw) batch st;
             keywordProgress = min 7 (3 + (4 * i) div length kws)
         in andThen (progress cb keywordProgress st1) (importKeywords gw cb kws (i + 50)))
      else Inr st)"
  by pat_completeness auto
termination
  by (relation "measure (\<lambda>(gw, cb, kws, i, st). length kws - i)") auto

declare importKeywords.simps [simp del]

subsection \<open>Importing the facts\<close>

text \<open>
  \<open>rankingsByKeyword\<close>: a \<open>Map\<close> from identifier to facts, iterated in the order in which
  the identifiers were first seen.
\<close>

fun groupInsert ::
  "PascalRankingData \<Rightarrow> (number \<times> PascalRankingData list) list
     \<Rightarrow> (number \<times> PascalRankingData list) list" where
  "groupInsert r [] = [(PascalRankingData.pascal_id r, [r])]"
| "groupInsert r ((p, rs) # g) =
     (if p = PascalRankingData.pascal_id r then (p, rs @ [r]) # g
      else (p, rs) # groupInsert r g)"

definition rankingsByKeyword ::
  "PascalRankingData list \<Rightarrow> (number \<times> PascalRankingData list) list" where
  "rankingsByKeyword rs = fold groupInsert rs []"

text \<open>
  The batches of one identifier, \<open>for (let i = 0; i < rankings.length; i += 100)\<close>: a
  failed request throws out of the loop.
\<close>

function importRankingBatches ::
  "'s gateway \<Rightarrow> kwid \<Rightarrow> PascalRankingData list \<Rightarrow> nat \<Rightarrow> 's run \<Rightarrow> 's step" where
  "importRankingBatches gw keywordId rs i st =
     (if i < length rs then
        (let batch = take 100 (drop i rs);
             rankingData =
               map (\<lambda>r. (keywordId, PascalRankingData.date r, PascalRankingData.rank r)) batch;
             (s', e) = bulkUpsertRankings gw (db st) rankingData;
             st1 = st\<lparr>db := s', requests := requests st @ [BulkUpsertRankings rankingData]\<rparr>
         in case e of
              Some msg \<Rightarrow> Inl (GatewayError msg, st1)
            | None \<Rightarrow>
                importRankingBatches gw keywordId rs (i + 100)
                  (st1\<lparr>result := (result st1)\<lparr>importedRankings :=
                          importedRankings (result st1) + length rankingData\<rparr>\<rparr>))
      else Inr st)"
  by pat_completeness auto
termination
  by (relation "measure (\<lambda>(gw, keywordId, rs, i, st). length rs - i)") auto

declare importRankingBatches.simps [simp del]

text \<open>
  The body of \<open>for (const [pascalId, rankings] of rankingsByKeyword)\<close>, on the counter
  \<open>processedKeywords\<close> and the state. An identifier without surrogate id is reported and
  skipped. The batches and the progress call stand in one \<open>try\<close>, whose \<open>catch\<close> reports
  what was thrown and goes on with the next identifier.
\<close>

definition importRankingGroup ::
  "'s gateway \<Rightarrow> (nat \<Rightarrow> nat \<Rightarrow> bool) option \<Rightarrow> nat \<Rightarrow> number \<times> PascalRankingData list
     \<Rightarrow> nat \<times> 's run \<Rightarrow> nat \<times> 's run" where
  "importRankingGroup gw cb totalKeywordsWithRankings g ps =
     (let (pascalId, rs) = g; (processedKeywords, st) = ps in
      case keywordIdMap st pascalId of
        None \<Rightarrow> (processedKeywords, addError (KeywordNotFound pascalId) st)
      | Some keywordId \<Rightarrow>
          (case importRankingBatches gw keywordId rs 0 st of
             Inl (e, st1) \<Rightarrow> (processedKeywords, addError (RankingsFailed pascalId e) st1)
           | Inr st1 \<Rightarrow>
               (let processed = processedKeywords + 1;
                    rankingProgress = 8 + (2 * processed) div totalKeywordsWithRankings
                in case progress cb rankingProgress st1 of
                     Inl (e, st2) \<Rightarrow> (processed, addError (RankingsFailed pascalId e) st2)
                   | Inr st2 \<Rightarrow> (processed, st2))))"

definition importRankings ::
  "'s gateway \<Rightarrow> (nat \<Rightarrow> nat \<Rightarrow> bool) option \<Rightarrow> PascalRankingData list \<Rightarrow> 's run \<Rightarrow> 's run" where
  "importRankings gw cb rs st =
     (let byKeyword = rankingsByKeyword rs
      in snd (fold (importRankingGroup gw cb (length byKeyword)) byKeyword (0, st)))"

subsection \<open>The five stages\<close>

definition finish :: "'s run \<Rightarrow> 's run" where
  "finish st =
     st\<lparr>result := (result st)
          \<lparr>success := (errors (result st) = []),
           summary := Some (importedKeywords (result st), totalKeywords (result st),
                            importedRankings (result st), totalRankings (result st))\<rparr>\<rparr>"

text \<open>
  The body of the \<open>try\<close>. \<open>Inr\<close> is a \<open>return result\<close> (after a failed validation, for a
  file without entities, or at the end); \<open>Inl\<close> is an error thrown to the \<open>catch\<close>.
\<close>

definition importBody ::
  "'s gateway \<Rightarrow> (nat \<Rightarrow> nat \<Rightarrow> bool) option \<Rightarrow> jsstring \<Rightarrow> 's run \<Rightarrow> 's step" where
  "importBody gw cb csvContent st0 =
     andThen (progress cb 1 st0) (\<lambda>st1.
       let validation = validatePascalCsv csvContent in
       if validation \<noteq> [] then
         Inr (st1\<lparr>result := (result st1)\<lparr>errors := map Invalid validation\<rparr>\<rparr>)
       else
         andThen (progress cb 2 st1) (\<lambda>st2.
           case parsePascalCsv csvContent of
             Inl e \<Rightarrow> Inl (ParseError e, st2)
           | Inr csvData \<Rightarrow>
               (let st3 = st2\<lparr>result := (result st2)
                              \<lparr>totalKeywords := length (csvKeywords csvData),
                               totalRankings := length (csvRankings csvData)\<rparr>\<rparr>
                in if csvKeywords csvData = [] then Inr (addError NoValidKeywords st3)
                   else
                     andThen (progress cb 3 st3) (\<lambda>st4.
                     andThen (importKeywords gw cb (csvKeywords csvData) 0 st4) (\<lambda>st5.
                     andThen (progress cb 7 st5) (\<lambda>st6.
                     andThen (progress cb 10 (importRankings gw cb (csvRankings csvData) st6))
                       (\<lambda>st7. Inr (finish st7))))))))"

text \<open>
  \<open>importPascalCsv\<close>: what the caller gets, with the store and the requests of the run.
  \<open>Inr\<close> is the promise resolved with the result, \<open>Inl\<close> the promise rejected with a
  thrown error. The \<open>catch\<close> adds \<open>Import failed: ...\<close> to the result as it is at that
  moment and returns it.
\<close>

record 's outcome =
  returned :: PascalImportResult
  store :: 's
  sent :: "request list"

definition outcomeOf :: "'s run \<Rightarrow> 's outcome" where
  "outcomeOf st = \<lparr>returned = result st, store = db st, sent = requests st\<rparr>"

definition importPascalCsv ::
  "'s gateway \<Rightarrow> (nat \<Rightarrow> nat \<Rightarrow> bool) option \<Rightarrow> 's \<Rightarrow> jsstring \<Rightarrow> thrown + 's outcome" where
  "importPascalCsv gw progressCallback s csvContent =
     (case importBody gw progressCallback csvContent
             \<lparr>result = initialResult, db = s, requests = [], keywordIdMap = Map.empty\<rparr> of
        Inr st \<Rightarrow> Inr (outcomeOf st)
      | Inl (e, st) \<Rightarrow> Inr (outcomeOf (addError (ImportFailed e) st)))"

subsection \<open>A store with keyed upserts\<close>

text \<open>
  Modelled from the spec: the persistence gateway, a hosted database that is not part
  of the repository. The schema shipped with the repository declares \<open>pascal_id\<close> unique
  in the entity table and (\<open>pascal_keyword_id\<close>, \<open>date\<close>) unique in the fact table, and
  the two services upsert on these keys. By the specification an entity upsert inserts
  a row with a new surrogate id or overwrites the scalar fields of the row with the same
  natural key and returns the row's surrogate id; a fact upsert inserts or replaces the
  rank of each (surrogate id, date) of the list. The store may reject a request for
  what the request holds (a value outside a column's type, for instance); which
  requests it rejects is a parameter, and a rejected request changes nothing.
\<close>

text \<open>A row of the entity table: the surrogate id (the column \<open>id\<close>) and the scalar fields.\<close>

record PascalKeyword =
  rowId :: kwid
  rowData :: PascalKeywordData

record tables =
  keywordTable :: "number \<rightharpoonup> PascalKeyword"
  rankingTable :: "kwid \<times> isodate \<rightharpoonup> number"
  nextId :: kwid

definition emptyTables :: tables where
  "emptyTables = \<lparr>keywordTable = Map.empty, rankingTable = Map.empty, nextId = 0\<rparr>"

definition upsertEntity ::
  "(PascalKeywordData \<Rightarrow> string option) \<Rightarrow> tables \<Rightarrow> PascalKeywordData
     \<Rightarrow> tables \<times> (string + kwid)" where
  "upsertEntity rejectKeyword s k =
     (case rejectKeyword k of
        Some msg \<Rightarrow> (s, Inl msg)
      | None \<Rightarrow>
          (case keywordTable s (PascalKeywordData.pascal_id k) of
             Some row \<Rightarrow>
               (s\<lparr>keywordTable :=
                    (keywordTable s)(PascalKeywordData.pascal_id k \<mapsto> row\<lparr>rowData := k\<rparr>)\<rparr>,
                Inr (rowId row))
           | None \<Rightarrow>
               (s\<lparr>keywordTable :=
                    (keywordTable s)(PascalKeywordData.pascal_id k \<mapsto> \<lparr>rowId = nextId s, rowData = k\<rparr>),
                  nextId := Suc (nextId s)\<rparr>,
                Inr (nextId s))))"

definition bulkUpsertFacts ::
  "(rankingRow list \<Rightarrow> string option) \<Rightarrow> tables \<Rightarrow> rankingRow list \<Rightarrow> tables \<times> string option" where
  "bulkUpsertFacts rejectBatch s rows =
     (case rejectBatch rows of
        Some msg \<Rightarrow> (s, Some msg)
      | None \<Rightarrow>
          (s\<lparr>rankingTable :=
               fold (\<lambda>(k, d, r) t. t((k, d) \<mapsto> r)) rows (rankingTable s)\<rparr>,
           None))"

definition storeGateway ::
  "(PascalKeywordData \<Rightarrow> string option) \<Rightarrow> (rankingRow list \<Rightarrow> string option) \<Rightarrow> tables gateway" where
  "storeGateway rejectKeyword rejectBatch =
     \<lparr>upsertKeyword = upsertEntity rejectKeyword,
      bulkUpsertRankings = bulkUpsertFacts rejectBatch\<rparr>"

text \<open>The store's integer columns hold 32-bit values: a rule of rejection for the examples.\<close>

definition inInt4 :: "number \<Rightarrow> bool" where
  "inInt4 n =
     (case n of Finite i \<Rightarrow> - 2147483648 \<le> i \<and> i \<le> 2147483647 | _ \<Rightarrow> False)"

definition rejectKeywordInt4 :: "PascalKeywordData \<Rightarrow> string option" where
  "rejectKeywordInt4 k =
     (if inInt4 (PascalKeywordData.pascal_id k)
         \<and> (case monthly_search_volume k of None \<Rightarrow> True | Some v \<Rightarrow> inInt4 v)
      then None else Some ''integer out of range'')"

definition rejectBatchInt4 :: "rankingRow list \<Rightarrow> string option" where
  "rejectBatchInt4 rows =
     (if list_all (\<lambda>(k, d, r). inInt4 r) rows then None else Some ''integer out of range'')"

section \<open>Properties of the calendar arithmetic\<close>

text \<open>
  \<open>YearFromDay d\<close> is the year ECMAScript defines: the only \<open>y\<close> with
  \<open>DayFromYear y \<le> d < DayFromYear (y + 1)\<close>. \<open>MakeDay\<close> inverts the three readers
  \<open>YearFromDay\<close>, \<open>MonthFromDay\<close> and \<open>DateFromDay\<close>.
\<close>

lemma div_lower: "0 < (n::int) \<Longrightarrow> n * (a div n) \<le> a"
  by (metis pos_mod_sign mult_div_mod_eq add_le_cancel_left add.right_neutral)

lemma div_upper: "0 < (n::int) \<Longrightarrow> a < n * (a div n) + n"
  by (metis pos_mod_bound mult_div_mod_eq add_less_cancel_left)

lemma div_succ:
  assumes "0 < (n::int)"
  shows "(a + 1) div n = (if (a + 1) mod n = 0 then a div n + 1 else a div n)"
proof (cases "a mod n = n - 1")
  case True
  have e: "a + 1 = n * (a div n + 1) + 0"
    using mult_div_mod_eq[of n a] True by (simp add: algebra_simps)
  have "(a + 1) div n = a div n + 1"
    by (rule int_div_pos_eq[OF e]) (use assms in simp_all)
  moreover have "(a + 1) mod n = 0"
    by (rule int_mod_pos_eq[OF e]) (use assms in simp_all)
  ultimately show ?thesis by simp
next
  case False
  have r: "0 \<le> a mod n" "0 \<le> a mod n + 1" "a mod n + 1 < n"
    using assms False pos_mod_bound[of n a] pos_mod_sign[of n a] by linarith+
  have e: "a + 1 = n * (a div n) + (a mod n + 1)"
    using mult_div_mod_eq[of n a] by (simp add: algebra_simps)
  have "(a + 1) div n = a div n"
    by (rule int_div_pos_eq[OF e]) (use r in simp_all)
  moreover have "(a + 1) mod n = a mod n + 1"
    by (rule int_mod_pos_eq[OF e]) (use r in simp_all)
  moreover have "a mod n + 1 \<noteq> 0" using r(1) by linarith
  ultimately show ?thesis by simp
qed

lemma mod_shift: "((y::int) - k * n) mod n = y mod n"
  by (metis diff_zero mod_diff_right_eq mod_mult_self1_is_0 mult.commute)

lemma DayFromYear_step: "DayFromYear (y + 1) = DayFromYear y + DaysInYear y"
proof -
  have a: "(y + 1 - 1969) div 4 = (y - 1969) div 4 + (if y mod 4 = 0 then 1 else 0)"
    using div_succ[of 4 "y - 1969"] mod_shift[of y 492 4] by (simp add: algebra_simps)
  have b: "(y + 1 - 1901) div 100 = (y - 1901) div 100 + (if y mod 100 = 0 then 1 else 0)"
    using div_succ[of 100 "y - 1901"] mod_shift[of y 19 100] by (simp add: algebra_simps)
  have c: "(y + 1 - 1601) div 400 = (y - 1601) div 400 + (if y mod 400 = 0 then 1 else 0)"
    using div_succ[of 400 "y - 1601"] mod_shift[of y 4 400] by (simp add: algebra_simps)
  have d: "y mod 400 = 0 \<Longrightarrow> y mod 100 = 0" "y mod 100 = 0 \<Longrightarrow> y mod 4 = 0"
    using mod_mod_cancel[of 100 400 y] mod_mod_cancel[of 4 100 y] by simp_all
  define p4 where "p4 = (y mod 4 = 0)"
  define p100 where "p100 = (y mod 100 = 0)"
  define p400 where "p400 = (y mod 400 = 0)"
  have d': "p400 \<Longrightarrow> p100" "p100 \<Longrightarrow> p4"
    using d by (simp_all add: p4_def p100_def p400_def)
  have "DayFromYear (y + 1) = DayFromYear y + 365 + (if p4 then 1 else 0)
          - (if p100 then 1 else 0) + (if p400 then 1 else 0)"
    unfolding DayFromYear_def a b c p4_def p100_def p400_def by simp
  moreover have "DaysInYear y = 365 + (if p4 then 1 else 0)
          - (if p100 then 1 else 0) + (if p400 then 1 else 0)"
    unfolding DaysInYear_def InLeapYear_def p4_def[symmetric] p100_def[symmetric] p400_def[symmetric]
    using d' by (cases p4; cases p100; cases p400; simp)
  ultimately show ?thesis by simp
qed

lemma DayFromYear_lower: "146097 * (y - 1970) - 607 < 400 * DayFromYear y"
proof -
  define A B C where "A = (y - 1969) div 4" and "B = (y - 1901) div 100" and "C = (y - 1601) div 400"
  have "y - 1969 < 4 * A + 4" unfolding A_def by (rule div_upper) simp
  moreover have "100 * B \<le> y - 1901" unfolding B_def by (rule div_lower) simp
  moreover have "y - 1601 < 400 * C + 400" unfolding C_def by (rule div_upper) simp
  moreover have "DayFromYear y = 365 * (y - 1970) + A - B + C"
    by (simp add: DayFromYear_def A_def B_def C_def)
  ultimately show ?thesis by (simp add: algebra_simps)
qed

lemma DayFromYear_upper: "400 * DayFromYear y < 146097 * (y - 1970) + 593"
proof -
  define A B C where "A = (y - 1969) div 4" and "B = (y - 1901) div 100" and "C = (y - 1601) div 400"
  have "4 * A \<le> y - 1969" unfolding A_def by (rule div_lower) simp
  moreover have "y - 1901 < 100 * B + 100" unfolding B_def by (rule div_upper) simp
  moreover have "400 * C \<le> y - 1601" unfolding C_def by (rule div_lower) simp
  moreover have "DayFromYear y = 365 * (y - 1970) + A - B + C"
    by (simp add: DayFromYear_def A_def B_def C_def)
  ultimately show ?thesis by (simp add: algebra_simps)
qed

lemma YearFromDay_bounds:
  "DayFromYear (YearFromDay d) \<le> d \<and> d < DayFromYear (YearFromDay d + 1)"
proof -
  define q where "q = (400 * d) div 146097"
  define y where "y = 1970 + q"
  have e1: "146097 * q \<le> 400 * d" unfolding q_def by (rule div_lower) simp
  have e2: "400 * d < 146097 * q + 146097" unfolding q_def by (rule div_upper) simp
  have hi: "d < DayFromYear (y + 2)"
    using DayFromYear_lower[of "y + 2"] e2 unfolding y_def by (simp add: algebra_simps)
  have lo: "DayFromYear (y - 1) \<le> d"
    using DayFromYear_upper[of "y - 1"] e1 unfolding y_def by (simp add: algebra_simps)
  have two: "y + 1 + 1 = y + 2" "y - 1 + 1 = y" by simp_all
  have yq: "1970 + (400 * d) div 146097 = y" by (simp add: y_def q_def)
  show ?thesis
    unfolding YearFromDay_def Let_def yq
    using hi lo by (auto simp: two)
qed

lemma DaysInYear_pos: "365 \<le> DaysInYear y \<and> DaysInYear y \<le> 366"
  by (simp add: DaysInYear_def)

lemma DayFromYear_mono_nat: "DayFromYear y + 365 * int n \<le> DayFromYear (y + int n)"
proof (induction n)
  case 0
  then show ?case by simp
next
  case (Suc n)
  have e: "y + int (Suc n) = (y + int n) + 1" by simp
  have "DayFromYear (y + int (Suc n)) = DayFromYear (y + int n) + DaysInYear (y + int n)"
    unfolding e by (rule DayFromYear_step)
  then show ?case using Suc DaysInYear_pos[of "y + int n"] by (simp add: algebra_simps)
qed

lemma DayFromYear_strict_mono:
  assumes "y < y'"
  shows "DayFromYear y < DayFromYear y'"
proof -
  obtain n where n: "y' = y + int n" "0 < n"
    using assms by (metis zless_iff_Suc_zadd zero_less_Suc)
  show ?thesis using DayFromYear_mono_nat[of y n] n by simp
qed

lemma YearFromDay_unique:
  assumes "DayFromYear y \<le> d" and "d < DayFromYear (y + 1)"
  shows "YearFromDay d = y"
proof (rule ccontr)
  assume ne: "YearFromDay d \<noteq> y"
  define z where "z = YearFromDay d"
  have b: "DayFromYear z \<le> d" "d < DayFromYear (z + 1)"
    using YearFromDay_bounds[of d] by (simp_all add: z_def)
  consider "z < y" | "y < z" using ne z_def by linarith
  then show False
  proof cases
    case 1
    then have "z + 1 \<le> y" by simp
    then have "DayFromYear (z + 1) \<le> DayFromYear y"
      using DayFromYear_strict_mono[of "z + 1" y] by (cases "z + 1 = y") auto
    then show False using b assms by linarith
  next
    case 2
    then have "y + 1 \<le> z" by simp
    then have "DayFromYear (y + 1) \<le> DayFromYear z"
      using DayFromYear_strict_mono[of "y + 1" z] by (cases "y + 1 = z") auto
    then show False using b assms by linarith
  qed
qed

lemma DayWithinYear_range: "0 \<le> DayWithinYear d \<and> DayWithinYear d < DaysInYear (YearFromDay d)"
  using YearFromDay_bounds[of d] DayFromYear_step[of "YearFromDay d"]
  by (simp add: DayWithinYear_def)

lemma MonthFromDay_range: "0 \<le> MonthFromDay d \<and> MonthFromDay d \<le> 11"
  by (simp add: MonthFromDay_def Let_def)

lemma MakeDay_month_in_year:
  "0 \<le> m \<Longrightarrow> m \<le> 11 \<Longrightarrow> MakeDay y m dt = DayFromYear y + monthStart (InLeapYear y) m + dt - 1"
  by (simp add: MakeDay_def Let_def)

lemma MakeDay_parts: "MakeDay (YearFromDay d) (MonthFromDay d) dt = d - DateFromDay d + dt"
  using MonthFromDay_range[of d]
  by (simp add: MakeDay_month_in_year DateFromDay_def DayWithinYear_def)

lemma monthStart_range:
  "0 \<le> m \<Longrightarrow> m \<le> 11 \<Longrightarrow> 0 \<le> monthStart (InLeapYear y) m \<and> monthStart (InLeapYear y) m < DaysInYear y"
  by (simp add: monthStart_def DaysInYear_def Let_def)

lemma YearFromDay_MakeDay:
  assumes "0 \<le> m" "m \<le> 11"
  shows "YearFromDay (MakeDay y m 1) = y"
  using monthStart_range[OF assms, of y] DayFromYear_step[of y]
  by (intro YearFromDay_unique) (simp_all add: MakeDay_month_in_year[OF assms])

lemma DayWithinYear_MakeDay:
  assumes "0 \<le> m" "m \<le> 11"
  shows "DayWithinYear (MakeDay y m 1) = monthStart (InLeapYear y) m"
  unfolding DayWithinYear_def YearFromDay_MakeDay[OF assms]
  by (simp add: MakeDay_month_in_year[OF assms])

lemma MonthFromDay_MakeDay:
  assumes "0 \<le> m" "m \<le> 11"
  shows "MonthFromDay (MakeDay y m 1) = m"
proof -
  have "m = 0 \<or> m = 1 \<or> m = 2 \<or> m = 3 \<or> m = 4 \<or> m = 5 \<or> m = 6 \<or> m = 7 \<or> m = 8
          \<or> m = 9 \<or> m = 10 \<or> m = 11"
    using assms by arith
  then show ?thesis
    unfolding MonthFromDay_def DayWithinYear_MakeDay[OF assms] YearFromDay_MakeDay[OF assms]
    by (elim disjE) (simp_all add: monthStart_def)
qed

lemma DateFromDay_MakeDay:
  assumes "0 \<le> m" "m \<le> 11"
  shows "DateFromDay (MakeDay y m 1) = 1"
  by (simp add: DateFromDay_def DayWithinYear_MakeDay[OF assms] YearFromDay_MakeDay[OF assms]
      MonthFromDay_MakeDay[OF assms])

section \<open>Properties of the aggregation engine\<close>

subsection \<open>Coherence of the aggregated points\<close>

text \<open>
  The bucket of a key: the facts, in sorted order, that the component files under the
  key. At daily granularity the key of a fact is its date, at weekly and monthly
  granularity its \<open>groupKey\<close>.
\<close>

definition bucket :: "zone \<Rightarrow> TimeAggregation \<Rightarrow> RankingData list \<Rightarrow> isodate \<Rightarrow> RankingData list" where
  "bucket z aggregation data k =
     filter (\<lambda>item. (if aggregation = daily then RankingData.date item
                      else groupKey z aggregation item) = k)
       (sortedData data)"

text \<open>
  The ranks a point of a non-empty bucket is computed from: at daily granularity the
  rank of the last fact of the bucket (\<open>dataMap.set\<close> overwrites an earlier fact of the
  same date), at weekly and monthly granularity the ranks of all facts of the bucket.
\<close>

definition countedRanks :: "TimeAggregation \<Rightarrow> RankingData list \<Rightarrow> int list" where
  "countedRanks aggregation facts =
     (if aggregation = daily then [RankingData.rank (last facts)]
      else map RankingData.rank facts)"

text \<open>
  The coherence of a point against the facts of its bucket: the three flags agree and
  are set exactly when the bucket is empty; an empty bucket carries the sentinel in its
  three statistics; a non-empty bucket has \<open>dataPoints\<close> the number of counted ranks, at
  least 1, and the rounded mean, the minimum and the maximum of exactly these ranks.
\<close>

definition coherent :: "TimeAggregation \<Rightarrow> RankingData list \<Rightarrow> AggregatedData \<Rightarrow> bool" where
  "coherent aggregation facts p =
     ((AggregatedData.rank p = None \<longleftrightarrow> isOutOfRange p) \<and>
      (isOutOfRange p \<longleftrightarrow> dataPoints p = 0) \<and>
      (isOutOfRange p \<longleftrightarrow> facts = []) \<and>
      (facts = [] \<longrightarrow> avgRank p = 101 \<and> minRank p = 101 \<and> maxRank p = 101) \<and>
      (facts \<noteq> [] \<longrightarrow>
         1 \<le> dataPoints p \<and>
         dataPoints p = length (countedRanks aggregation facts) \<and>
         avgRank p = roundDiv (sum_list (countedRanks aggregation facts))
                       (int (length (countedRanks aggregation facts))) \<and>
         minRank p = Min (set (countedRanks aggregation facts)) \<and>
         maxRank p = Max (set (countedRanks aggregation facts)) \<and>
         AggregatedData.rank p = Some (avgRank p)))"

lemma set_sortedData: "set (sortedData data) = set data"
  by (simp add: sortedData_def)

lemma roundDiv_one: "roundDiv r 1 = r"
  by (simp add: roundDiv_def)

text \<open>The two \<open>Map\<close>s hold the buckets: \<open>dataMap\<close> the last fact of each, \<open>groups\<close> all of them.\<close>

lemma dataMap_fold:
  "fold (\<lambda>item m. m(RankingData.date item \<mapsto> item)) xs m d =
     (if filter (\<lambda>f. RankingData.date f = d) xs = [] then m d
      else Some (last (filter (\<lambda>f. RankingData.date f = d) xs)))"
proof (induction xs arbitrary: m)
  case Nil
  then show ?case by simp
next
  case (Cons a xs)
  have s: "fold (\<lambda>item m. m(RankingData.date item \<mapsto> item)) (a # xs) m d
             = fold (\<lambda>item m. m(RankingData.date item \<mapsto> item)) xs
                 (m(RankingData.date a \<mapsto> a)) d"
    by (simp only: fold.simps o_apply)
  show ?case
  proof (cases "RankingData.date a = d")
    case True
    then have u: "(m(RankingData.date a \<mapsto> a)) d = Some a" by simp
    show ?thesis unfolding s Cons.IH u using True by simp
  next
    case False
    then have u: "(m(RankingData.date a \<mapsto> a)) d = m d" by simp
    show ?thesis unfolding s Cons.IH u using False by simp
  qed
qed

lemma dataMap_bucket:
  "dataMap srt d =
     (if filter (\<lambda>f. RankingData.date f = d) srt = [] then None
      else Some (last (filter (\<lambda>f. RankingData.date f = d) srt)))"
  unfolding dataMap_def dataMap_fold by simp

lemma groups_fold:
  "fold (\<lambda>item m. let k = key item in
                    case m k of None \<Rightarrow> m(k \<mapsto> [item]) | Some g \<Rightarrow> m(k \<mapsto> g @ [item]))
        xs m k =
     (case m k of
        None \<Rightarrow> if filter (\<lambda>f. key f = k) xs = [] then None
                else Some (filter (\<lambda>f. key f = k) xs)
      | Some g \<Rightarrow> Some (g @ filter (\<lambda>f. key f = k) xs))"
proof (induction xs arbitrary: m)
  case Nil
  then show ?case by (simp split: option.splits)
next
  case (Cons a xs)
  let ?step = "\<lambda>item m. let k = key item in
                 case m k of None \<Rightarrow> m(k \<mapsto> [item]) | Some g \<Rightarrow> m(k \<mapsto> g @ [item])"
  have s: "fold ?step (a # xs) m k = fold ?step xs (?step a m) k"
    by (simp only: fold.simps o_apply)
  show ?case
  proof (cases "key a = k")
    case True
    have u: "?step a m k = Some ((case m k of None \<Rightarrow> [] | Some g \<Rightarrow> g) @ [a])"
      using True by (simp add: Let_def split: option.splits)
    show ?thesis unfolding s Cons.IH u using True by (simp split: option.splits)
  next
    case False
    have u: "?step a m k = m k"
      using False by (simp add: Let_def split: option.splits)
    show ?thesis unfolding s Cons.IH u using False by (simp split: option.splits)
  qed
qed

lemma groups_bucket:
  "groups z aggregation srt k =
     (if filter (\<lambda>f. groupKey z aggregation f = k) srt = [] then None
      else Some (filter (\<lambda>f. groupKey z aggregation f = k) srt))"
  unfolding groups_def groups_fold by simp

lemma dailyPoint_date: "AggregatedData.date (dailyPoint (dataMap srt) d) = d"
proof (cases "filter (\<lambda>f. RankingData.date f = d) srt = []")
  case True
  then show ?thesis by (simp add: dailyPoint_def dataMap_bucket outOfRangePoint_def)
next
  case False
  then have "last (filter (\<lambda>f. RankingData.date f = d) srt)
               \<in> set (filter (\<lambda>f. RankingData.date f = d) srt)"
    by (rule last_in_set)
  then have "RankingData.date (last (filter (\<lambda>f. RankingData.date f = d) srt)) = d" by simp
  then show ?thesis using False by (simp add: dailyPoint_def dataMap_bucket)
qed

lemma periodPoint_date: "AggregatedData.date (periodPoint g k) = k"
  by (simp add: periodPoint_def outOfRangePoint_def Let_def split: option.splits)

lemma coherent_dailyPoint:
  "coherent daily (filter (\<lambda>f. RankingData.date f = d) srt) (dailyPoint (dataMap srt) d)"
  by (simp add: coherent_def countedRanks_def dailyPoint_def dataMap_bucket outOfRangePoint_def
      roundDiv_one)

lemma coherent_periodPoint:
  assumes "aggregation \<noteq> daily"
  shows "coherent aggregation (filter (\<lambda>f. groupKey z aggregation f = k) srt)
           (periodPoint (groups z aggregation srt) k)"
proof (cases "filter (\<lambda>f. groupKey z aggregation f = k) srt = []")
  case True
  then show ?thesis
    by (simp add: coherent_def periodPoint_def groups_bucket outOfRangePoint_def)
next
  case False
  then have "1 \<le> length (filter (\<lambda>f. groupKey z aggregation f = k) srt)"
    by (cases "filter (\<lambda>f. groupKey z aggregation f = k) srt") simp_all
  then show ?thesis
    using False assms
    by (simp add: coherent_def countedRanks_def periodPoint_def groups_bucket Let_def
        del: set_map)
qed

lemma aggregatedData_points:
  assumes "aggregatedData z aggregation data startDate endDate = Some pts" and "p \<in> set pts"
  shows "\<exists>k. p = (if aggregation = daily then dailyPoint (dataMap (sortedData data)) k
                   else periodPoint (groups z aggregation (sortedData data)) k)"
proof (cases "dateRange (sortedData data) startDate endDate")
  case None
  then show ?thesis using assms by (simp add: aggregatedData_def)
next
  case (Some r)
  obtain a b where r: "r = (a, b)" by (cases r)
  show ?thesis
  proof (cases "aggregation = daily")
    case True
    then obtain ds where "pts = map (dailyPoint (dataMap (sortedData data))) ds"
      using assms(1) Some r by (auto simp: aggregatedData_def)
    then show ?thesis using assms(2) True by auto
  next
    case False
    then obtain ks where "pts = map (periodPoint (groups z aggregation (sortedData data))) ks"
      using assms(1) Some r by (auto simp: aggregatedData_def)
    then show ?thesis using assms(2) False by auto
  qed
qed

lemma aggregatedData_coherent:
  assumes "aggregatedData z aggregation data startDate endDate = Some pts" and "p \<in> set pts"
  shows "coherent aggregation (bucket z aggregation data (AggregatedData.date p)) p"
proof -
  obtain k where k: "p = (if aggregation = daily then dailyPoint (dataMap (sortedData data)) k
                          else periodPoint (groups z aggregation (sortedData data)) k)"
    using aggregatedData_points[OF assms] by blast
  show ?thesis
  proof (cases "aggregation = daily")
    case True
    then have p: "p = dailyPoint (dataMap (sortedData data)) k" using k by simp
    have d: "AggregatedData.date p = k" unfolding p by (rule dailyPoint_date)
    show ?thesis
      unfolding d bucket_def using True coherent_dailyPoint[of k "sortedData data"] p by simp
  next
    case False
    then have p: "p = periodPoint (groups z aggregation (sortedData data)) k" using k by simp
    have d: "AggregatedData.date p = k" unfolding p by (rule periodPoint_date)
    show ?thesis
      unfolding d bucket_def
      using False coherent_periodPoint[OF False, of z k "sortedData data"] p by simp
  qed
qed

lemma countedRanks_facts:
  assumes "facts \<noteq> []"
  shows "countedRanks aggregation facts \<noteq> []"
    and "set (countedRanks aggregation facts) \<subseteq> RankingData.rank ` set facts"
  using assms last_in_set[OF assms] by (auto simp: countedRanks_def)

lemma bucket_subset: "set (bucket z aggregation data k) \<subseteq> set data"
  by (auto simp: bucket_def set_sortedData)

lemma coherent_sentinel:
  assumes c: "coherent aggregation facts p" and s: "set facts \<subseteq> set data"
    and n: "\<forall>f \<in> set data. RankingData.rank f \<noteq> 101"
    and m: "minRank p = 101 \<or> maxRank p = 101"
  shows "isOutOfRange p"
proof (rule ccontr)
  assume "\<not> isOutOfRange p"
  then have ne: "facts \<noteq> []" using c by (simp add: coherent_def)
  let ?rs = "countedRanks aggregation facts"
  note r = countedRanks_facts[OF ne, of aggregation]
  have mm: "minRank p = Min (set ?rs)" "maxRank p = Max (set ?rs)"
    using c ne by (simp_all add: coherent_def)
  have "Min (set ?rs) \<in> set ?rs" "Max (set ?rs) \<in> set ?rs"
    using r(1) by simp_all
  then have "minRank p \<in> RankingData.rank ` set data" "maxRank p \<in> RankingData.rank ` set data"
    unfolding mm using r(2) s by blast+
  then show False using n m by auto
qed

text \<open>
  Claim C10, as the code has it. Every point the aggregation produces, at any
  granularity and in any time zone, is coherent with the facts of its bucket (the facts
  filed under the point's date): \<open>rank\<close> is null exactly when \<open>isOutOfRange\<close> is set,
  exactly when \<open>dataPoints\<close> is 0, exactly when the bucket is empty, and then the three
  statistics are the sentinel 101; a point of a non-empty bucket has \<open>isOutOfRange\<close>
  unset, \<open>dataPoints \<ge> 1\<close> and statistics computed from the ranks of the facts of the
  bucket only: at daily granularity the rank of the last fact of that date, counted
  once, at weekly and monthly granularity the number, the rounded mean, the minimum and
  the maximum of the ranks of all facts of the bucket. The sentinel value does not
  identify an empty bucket by itself: a fact of rank 101 gives a point whose statistics
  are 101 too. Where no fact has rank 101, a minimum or maximum of 101 does mean an
  empty bucket.
\<close>

theorem aggregated_point_coherence:
  assumes "aggregatedData z aggregation data startDate endDate = Some pts"
    and "p \<in> set pts"
  shows "coherent aggregation (bucket z aggregation data (AggregatedData.date p)) p
         \<and> ((\<forall>f \<in> set data. RankingData.rank f \<noteq> 101) \<longrightarrow>
              (minRank p = 101 \<or> maxRank p = 101 \<longrightarrow> isOutOfRange p))"
  using aggregatedData_coherent[OF assms] coherent_sentinel[OF _ bucket_subset]
  by blast

theorem aggregated_point_coherence_witness:
  "aggregatedData (fixedZone 0) weekly
     [\<lparr>RankingData.date = isoDate 2025 1 3, RankingData.rank = 3\<rparr>,
      \<lparr>RankingData.date = isoDate 2025 1 4, RankingData.rank = 46\<rparr>]
     (Some (isoDate 2025 1 1)) (Some (isoDate 2025 1 8))
   = Some [\<lparr>AggregatedData.date = isoDate 2024 12 30, rank = Some 25, avgRank = 25,
             minRank = 3, maxRank = 46, dataPoints = 2, isOutOfRange = False\<rparr>,
           \<lparr>AggregatedData.date = isoDate 2025 1 6, rank = None, avgRank = 101,
             minRank = 101, maxRank = 101, dataPoints = 0, isOutOfRange = True\<rparr>]
   \<and> bucket (fixedZone 0) weekly
        [\<lparr>RankingData.date = isoDate 2025 1 3, RankingData.rank = 3\<rparr>,
         \<lparr>RankingData.date = isoDate 2025 1 4, RankingData.rank = 46\<rparr>]
        (isoDate 2024 12 30)
      = [\<lparr>RankingData.date = isoDate 2025 1 3, RankingData.rank = 3\<rparr>,
         \<lparr>RankingData.date = isoDate 2025 1 4, RankingData.rank = 46\<rparr>]
   \<and> coherent weekly
        (bucket (fixedZone 0) weekly
           [\<lparr>RankingData.date = isoDate 2025 1 3, RankingData.rank = 3\<rparr>,
            \<lparr>RankingData.date = isoDate 2025 1 4, RankingData.rank = 46\<rparr>]
           (isoDate 2024 12 30))
        \<lparr>AggregatedData.date = isoDate 2024 12 30, rank = Some 25, avgRank = 25,
          minRank = 3, maxRank = 46, dataPoints = 2, isOutOfRange = False\<rparr>
   \<and> bucket (fixedZone 0) weekly
        [\<lparr>RankingData.date = isoDate 2025 1 3, RankingData.rank = 3\<rparr>,
         \<lparr>RankingData.date = isoDate 2025 1 4, RankingData.rank = 46\<rparr>]
        (isoDate 2025 1 6) = []
   \<and> coherent weekly
        (bucket (fixedZone 0) weekly
           [\<lparr>RankingData.date = isoDate 2025 1 3, RankingData.rank = 3\<rparr>,
            \<lparr>RankingData.date = isoDate 2025 1 4, RankingData.rank = 46\<rparr>]
           (isoDate 2025 1 6))
        \<lparr>AggregatedData.date = isoDate 2025 1 6, rank = None, avgRank = 101,
          minRank = 101, maxRank = 101, dataPoints = 0, isOutOfRange = True\<rparr>"
proof -
  let ?data = "[\<lparr>RankingData.date = isoDate 2025 1 3, RankingData.rank = 3\<rparr>,
                \<lparr>RankingData.date = isoDate 2025 1 4, RankingData.rank = 46\<rparr>]"
  let ?p1 = "\<lparr>AggregatedData.date = isoDate 2024 12 30, rank = Some 25, avgRank = 25,
               minRank = 3, maxRank = 46, dataPoints = 2, isOutOfRange = False\<rparr>"
  let ?p2 = "\<lparr>AggregatedData.date = isoDate 2025 1 6, rank = None, avgRank = 101,
               minRank = 101, maxRank = 101, dataPoints = 0, isOutOfRange = True\<rparr>"
  have eq: "aggregatedData (fixedZone 0) weekly ?data
              (Some (isoDate 2025 1 1)) (Some (isoDate 2025 1 8)) = Some [?p1, ?p2]"
    by code_simp
  have k: "map (groupKey (fixedZone 0) weekly) ?data = [isoDate 2024 12 30, isoDate 2024 12 30]"
    by code_simp
  have s: "sortedData ?data = ?data" by code_simp
  have n: "isoDate 2024 12 30 \<noteq> isoDate 2025 1 6" by code_simp
  have b1: "bucket (fixedZone 0) weekly ?data (isoDate 2024 12 30) = ?data"
    using k by (simp add: bucket_def s)
  have b2: "bucket (fixedZone 0) weekly ?data (isoDate 2025 1 6) = []"
    using k n by (simp add: bucket_def s)
  have m1: "?p1 \<in> set [?p1, ?p2]" and m2: "?p2 \<in> set [?p1, ?p2]" by simp_all
  have c1: "coherent weekly (bucket (fixedZone 0) weekly ?data (isoDate 2024 12 30)) ?p1"
    using aggregated_point_coherence[OF eq m1] by simp
  have c2: "coherent weekly (bucket (fixedZone 0) weekly ?data (isoDate 2025 1 6)) ?p2"
    using aggregated_point_coherence[OF eq m2] by simp
  show ?thesis using eq b1 b2 c1 c2 by simp
qed

text \<open>
  The claim as written fails: the single fact of rank 101 gives a daily point whose
  three statistics equal the sentinel although the point is not out of range.
\<close>

theorem sentinel_statistics_counterexample:
  "aggregatedData (fixedZone 0) daily
     [\<lparr>RankingData.date = isoDate 2025 1 1, RankingData.rank = 101\<rparr>] None None
   = Some [\<lparr>AggregatedData.date = isoDate 2025 1 1, rank = Some 101, avgRank = 101,
             minRank = 101, maxRank = 101, dataPoints = 1, isOutOfRange = False\<rparr>]"
  by code_simp

subsection \<open>The axis scale\<close>

lemma set_validRanks:
  "set (validRanks pts) = {r. \<exists>p \<in> set pts. \<not> isOutOfRange p \<and> AggregatedData.rank p = Some r}"
  by (force simp: validRanks_def List.map_filter_def split: if_splits)

lemma validRanks_statistics:
  "validRanks (map (\<lambda>p. p\<lparr>avgRank := a p, minRank := b p, maxRank := c p\<rparr>) pts) = validRanks pts"
  by (induction pts) (auto simp: validRanks_def map_filter_simps split: option.splits)

text \<open>
  Claim C9, as the code has it. For a series with at least one point the upper bound is
  the largest rank among the points that are not out of range plus 5, and 100 when
  every point is out of range; an empty series gives \<open>[1, 'auto']\<close>. The three statistics
  of a point, where the sentinel 101 sits, are never read: changing them changes
  nothing. The facts of ranks 3 and 45 with two gap days between them give the bound 50.
\<close>

theorem yAxisDomain_upper_bound:
  "yAxisDomain pts =
     (1, if pts = [] then Auto
         else if {r. \<exists>p \<in> set pts. \<not> isOutOfRange p \<and> AggregatedData.rank p = Some r} = {}
         then Bound 100
         else Bound (Max {r. \<exists>p \<in> set pts. \<not> isOutOfRange p \<and> AggregatedData.rank p = Some r} + 5))
   \<and> yAxisDomain (map (\<lambda>p. p\<lparr>avgRank := a p, minRank := b p, maxRank := c p\<rparr>) pts)
       = yAxisDomain pts
   \<and> map_option yAxisDomain
        (aggregatedData (fixedZone 0) daily
           [\<lparr>RankingData.date = isoDate 2025 1 1, RankingData.rank = 3\<rparr>,
            \<lparr>RankingData.date = isoDate 2025 1 4, RankingData.rank = 45\<rparr>]
           (Some (isoDate 2025 1 1)) (Some (isoDate 2025 1 4)))
       = Some (1, Bound 50)"
proof (intro conjI)
  have S: "{r. \<exists>p \<in> set pts. \<not> isOutOfRange p \<and> AggregatedData.rank p = Some r}
             = set (validRanks pts)"
    by (simp add: set_validRanks)
  show "yAxisDomain pts =
     (1, if pts = [] then Auto
         else if {r. \<exists>p \<in> set pts. \<not> isOutOfRange p \<and> AggregatedData.rank p = Some r} = {}
         then Bound 100
         else Bound (Max {r. \<exists>p \<in> set pts. \<not> isOutOfRange p \<and> AggregatedData.rank p = Some r} + 5))"
    unfolding S by (simp add: yAxisDomain_def)
  show "yAxisDomain (map (\<lambda>p. p\<lparr>avgRank := a p, minRank := b p, maxRank := c p\<rparr>) pts)
       = yAxisDomain pts"
    by (simp add: yAxisDomain_def validRanks_statistics)
  show "map_option yAxisDomain
        (aggregatedData (fixedZone 0) daily
           [\<lparr>RankingData.date = isoDate 2025 1 1, RankingData.rank = 3\<rparr>,
            \<lparr>RankingData.date = isoDate 2025 1 4, RankingData.rank = 45\<rparr>]
           (Some (isoDate 2025 1 1)) (Some (isoDate 2025 1 4)))
       = Some (1, Bound 50)"
    by code_simp
qed

text \<open>
  The claim as written fails for the empty series: there no point is a non-sentinel
  point, and the result is \<open>[1, 'auto']\<close>, not \<open>[1, 100]\<close>.
\<close>

theorem yAxisDomain_empty_counterexample:
  "yAxisDomain [] = (1, Auto)"
  by (simp add: yAxisDomain_def)

subsection \<open>Buckets and the host's time zone\<close>

text \<open>
  The component reads a date string as midnight UTC (\<open>new Date(s)\<close>), moves it with the
  local-time methods \<open>getDay\<close>, \<open>getDate\<close>, \<open>setDate\<close>, \<open>getMonth\<close>, \<open>setMonth\<close>,
  \<open>getFullYear\<close>, and writes it back as a UTC date (\<open>toISOString\<close>). The three
  evaluations below run the code in zones where local time and UTC disagree.
\<close>

text \<open>
  Claim C1 at a failing input. In US Pacific time the range from 2025-03-09 to
  2025-03-12 has four calendar days; the daily series has four points, but 2025-03-09
  appears twice and 2025-03-12 is missing: the step of one local day across the start
  of daylight saving time is 23 hours long.
\<close>

theorem daily_series_across_dst:
  "map_option (map AggregatedData.date)
     (aggregatedData pacificSpring2025 daily [] (Some (isoDate 2025 3 9)) (Some (isoDate 2025 3 12)))
   = Some [isoDate 2025 3 9, isoDate 2025 3 9, isoDate 2025 3 10, isoDate 2025 3 11]"
  by code_simp

text \<open>
  Claim C2 at a failing input. Eight hours west of UTC the fact dated 2025-01-03 (a
  Friday) is grouped under 2024-12-31, a Tuesday (week day 2), and the bucket sequence
  for the range 2025-01-03 to 2025-01-03 is that Tuesday: midnight UTC is the evening
  of the day before in local time, and the local Monday is written back as a UTC date.
\<close>

theorem weekly_bucket_west_of_utc:
  "groupKey (fixedZone (- 28800000)) weekly
     \<lparr>RankingData.date = isoDate 2025 1 3, RankingData.rank = 5\<rparr> = isoDate 2024 12 31
   \<and> WeekDay (isoDate 2025 1 3) = 5
   \<and> WeekDay (isoDate 2024 12 31) = 2
   \<and> generatePeriodRange (fixedZone (- 28800000)) (newDate (isoDate 2025 1 3))
        (newDate (isoDate 2025 1 3)) weekly = Some [isoDate 2024 12 31]"
  by code_simp

text \<open>
  Claim C8 at a failing input. Eight hours west of UTC the fact dated 2025-02-01 is
  grouped under 2025-01-01, and the bucket sequence for the range 2025-02-01 to
  2025-02-28 starts with January: 2025-01-01, 2025-02-01.
\<close>

theorem monthly_bucket_west_of_utc:
  "groupKey (fixedZone (- 28800000)) monthly
     \<lparr>RankingData.date = isoDate 2025 2 1, RankingData.rank = 5\<rparr> = isoDate 2025 1 1
   \<and> generatePeriodRange (fixedZone (- 28800000)) (newDate (isoDate 2025 2 1))
        (newDate (isoDate 2025 2 28)) monthly = Some [isoDate 2025 1 1, isoDate 2025 2 1]"
  by code_simp

section \<open>The chart in a zone with a fixed offset\<close>

text \<open>
  In a zone without daylight saving time \<open>setDate\<close> moves a \<open>Date\<close> by whole days, so the
  daily loop steps from one UTC midnight to the next.
\<close>

lemma setDate_fixedZone:
  "setDate (fixedZone k) t dt = t + (dt - getDate (fixedZone k) t) * msPerDay"
proof -
  define l where "l = t + k"
  have s: "l div msPerDay * msPerDay + l mod msPerDay = l" by simp
  have "setDate (fixedZone k) t dt
          = (Day l - DateFromDay (Day l) + dt) * msPerDay + l mod msPerDay - k"
    by (simp add: setDate_def fixedZone_def LocalTime_def UTC_def MakeDate_def MakeDay_parts
        TimeWithinDay_def l_def Let_def)
  also have "\<dots> = (l div msPerDay * msPerDay + l mod msPerDay)
                   + (dt - DateFromDay (Day l)) * msPerDay - k"
    by (simp add: Day_def algebra_simps)
  also have "\<dots> = t + (dt - DateFromDay (Day l)) * msPerDay"
    unfolding s by (simp add: l_def)
  finally show ?thesis
    by (simp add: getDate_def fixedZone_def LocalTime_def l_def)
qed

lemma toISODate_newDate: "toISODate (newDate d) = d"
  by (simp add: toISODate_def newDate_def Day_def msPerDay_def)

lemma newDate_le: "newDate c \<le> newDate e \<longleftrightarrow> c \<le> e"
  by (simp add: newDate_def msPerDay_def)

lemma generateDateRange_loop_fixedZone:
  "generateDateRange_loop (fixedZone k) (newDate c) (newDate e) acc = Some (acc @ [c..e])"
proof (induction "nat (e + 1 - c)" arbitrary: c acc)
  case 0
  then have "e < c" by simp
  then show ?case
    by (subst generateDateRange_loop.simps) (simp add: newDate_le)
next
  case (Suc n)
  then have le: "c \<le> e" and n: "n = nat (e + 1 - (c + 1))" by simp_all
  have step: "setDate (fixedZone k) (newDate c) (getDate (fixedZone k) (newDate c) + 1)
                = newDate (c + 1)"
    by (simp add: setDate_fixedZone newDate_def algebra_simps)
  have "generateDateRange_loop (fixedZone k) (newDate c) (newDate e) acc
          = generateDateRange_loop (fixedZone k) (newDate (c + 1)) (newDate e) (acc @ [c])"
    by (subst generateDateRange_loop.simps) (simp add: newDate_le le step toISODate_newDate)
  also have "\<dots> = Some ((acc @ [c]) @ [c + 1..e])" by (rule Suc.hyps(1)[OF n])
  also have "\<dots> = Some (acc @ [c..e])" using le by (simp add: upto_rec1)
  finally show ?case .
qed

text \<open>
  In a zone with a fixed offset, whatever the offset, the daily series of a range has
  exactly one point per calendar date of the range, in order: the dates of the points
  are \<open>startDate\<close>, \<open>startDate + 1\<close>, ..., \<open>endDate\<close>.
\<close>

lemma daily_series_fixedZone:
  "map_option (map AggregatedData.date)
     (aggregatedData (fixedZone k) daily data (Some s) (Some e)) = Some [s..e]"
proof -
  have "map AggregatedData.date (map (dailyPoint (dataMap srt)) ds) = ds" for srt ds
    by (induction ds) (simp_all add: dailyPoint_date)
  then show ?thesis
    by (simp add: aggregatedData_def dateRange_def generateDateRange_def
        generateDateRange_loop_fixedZone Let_def)
qed

text \<open>
  At or east of UTC (an offset from 0 up to, not including, one day) the local calendar
  date of a UTC midnight is the UTC date. There the weekly key of a fact is the Monday
  on or before its date, and the monthly key the first day of its month.
\<close>

lemma Day_local_midnight:
  assumes "0 \<le> k" "k < msPerDay"
  shows "Day (newDate d + k) = d" and "TimeWithinDay (newDate d + k) = k"
proof -
  have "(k + d * msPerDay) div msPerDay = d" using assms
    by (simp add: msPerDay_def div_pos_pos_trivial)
  then show "Day (newDate d + k) = d" by (simp add: Day_def newDate_def add.commute)
  show "TimeWithinDay (newDate d + k) = k" using assms
    by (simp add: TimeWithinDay_def newDate_def msPerDay_def)
qed

lemma startOfWeek_fixedZone:
  assumes "0 \<le> k" "k < msPerDay"
  shows "startOfWeek (fixedZone k) (newDate d) = newDate (d - (d + 3) mod 7)"
proof -
  have g: "getDay (fixedZone k) (newDate d) = (d + 4) mod 7"
    by (simp add: getDay_def fixedZone_def LocalTime_def Day_local_midnight[OF assms]
        WeekDay_def)
  have w: "X - (d + 4) mod 7 + (if (d + 4) mod 7 = 0 then - 6 else 1) - X
             = - ((d + 3) mod 7)" for X :: int
    by presburger
  show ?thesis
    unfolding startOfWeek_def Let_def setDate_fixedZone g w
    by (simp add: newDate_def algebra_simps)
qed

lemma weekly_key_fixedZone:
  assumes "0 \<le> k" "k < msPerDay"
  shows "groupKey (fixedZone k) weekly item
           = RankingData.date item - (RankingData.date item + 3) mod 7"
    and "WeekDay (groupKey (fixedZone k) weekly item) = 1"
    and "groupKey (fixedZone k) weekly item \<le> RankingData.date item"
    and "RankingData.date item < groupKey (fixedZone k) weekly item + 7"
proof -
  show e: "groupKey (fixedZone k) weekly item
           = RankingData.date item - (RankingData.date item + 3) mod 7"
    by (simp add: groupKey_def startOfWeek_fixedZone[OF assms] toISODate_newDate)
  show "WeekDay (groupKey (fixedZone k) weekly item) = 1"
    unfolding e WeekDay_def by presburger
  show "groupKey (fixedZone k) weekly item \<le> RankingData.date item"
    unfolding e by simp
  show "RankingData.date item < groupKey (fixedZone k) weekly item + 7"
    unfolding e by simp
qed

lemma monthly_key_fixedZone:
  assumes "0 \<le> k" "k < msPerDay"
  shows "groupKey (fixedZone k) monthly item
           = RankingData.date item - DateFromDay (RankingData.date item) + 1"
    and "DateFromDay (groupKey (fixedZone k) monthly item) = 1"
    and "MonthFromDay (groupKey (fixedZone k) monthly item)
           = MonthFromDay (RankingData.date item)"
    and "YearFromDay (groupKey (fixedZone k) monthly item)
           = YearFromDay (RankingData.date item)"
proof -
  define d where "d = RankingData.date item"
  note r = MonthFromDay_range[of d]
  have e: "groupKey (fixedZone k) monthly item = MakeDay (YearFromDay d) (MonthFromDay d) 1"
    by (simp add: groupKey_def monthKey_def getFullYear_def getMonth_def fixedZone_def
        LocalTime_def Day_local_midnight[OF assms] d_def)
  show "groupKey (fixedZone k) monthly item
           = RankingData.date item - DateFromDay (RankingData.date item) + 1"
    unfolding e by (simp add: MakeDay_parts d_def)
  show "DateFromDay (groupKey (fixedZone k) monthly item) = 1"
    unfolding e using r by (simp add: DateFromDay_MakeDay)
  show "MonthFromDay (groupKey (fixedZone k) monthly item)
           = MonthFromDay (RankingData.date item)"
    unfolding e using r by (simp add: MonthFromDay_MakeDay d_def)
  show "YearFromDay (groupKey (fixedZone k) monthly item)
           = YearFromDay (RankingData.date item)"
    unfolding e using r by (simp add: YearFromDay_MakeDay d_def)
qed

text \<open>
  The weekly bucket sequence at or east of UTC: the Monday on or before \<open>startDate\<close>, then
  every seventh day up to \<open>endDate\<close>.
\<close>

lemma weekly_loop_fixedZone:
  "weekly_loop (fixedZone k) (newDate c) (newDate e) acc
     = Some (acc @ map (\<lambda>i. c + 7 * int i) [0..<nat ((e - c + 7) div 7)])"
proof (induction "nat ((e - c + 7) div 7)" arbitrary: c acc)
  case 0
  then have "(e - c + 7) div 7 \<le> 0" by simp
  then have "e < c" by presburger
  then show ?case using 0
    by (subst weekly_loop.simps) (simp add: newDate_le)
next
  case (Suc n)
  then have p: "(e - c + 7) div 7 = int n + 1" by linarith
  then have le: "c \<le> e" by presburger
  have "(e - (c + 7) + 7) div 7 = (e - c + 7) div 7 - 1" by presburger
  then have n: "n = nat ((e - (c + 7) + 7) div 7)" using p by simp
  have step: "setDate (fixedZone k) (newDate c) (getDate (fixedZone k) (newDate c) + 7)
                = newDate (c + 7)"
    by (simp add: setDate_fixedZone newDate_def algebra_simps)
  have "weekly_loop (fixedZone k) (newDate c) (newDate e) acc
          = weekly_loop (fixedZone k) (newDate (c + 7)) (newDate e) (acc @ [c])"
    by (subst weekly_loop.simps) (simp add: newDate_le le step toISODate_newDate)
  also have "\<dots> = Some ((acc @ [c]) @ map (\<lambda>i. c + 7 + 7 * int i) [0..<n])"
    using Suc.hyps(1)[OF n] n by simp
  also have "map (\<lambda>i. c + 7 + 7 * int i) [0..<n] = map (\<lambda>i. c + 7 * int i) (map Suc [0..<n])"
    by (simp add: algebra_simps)
  also have "(acc @ [c]) @ map (\<lambda>i. c + 7 * int i) (map Suc [0..<n])
               = acc @ map (\<lambda>i. c + 7 * int i) (0 # map Suc [0..<n])"
    by simp
  also have "0 # map Suc [0..<n] = [0..<Suc n]"
    by (simp add: upt_conv_Cons map_Suc_upt del: upt_Suc)
  finally show ?case using Suc.hyps(2) by simp
qed

lemma weekly_buckets_fixedZone:
  assumes "0 \<le> k" "k < msPerDay"
  shows "generatePeriodRange (fixedZone k) (newDate s) (newDate e) weekly
           = Some (map (\<lambda>i. (s - (s + 3) mod 7) + 7 * int i)
                     [0..<nat ((e - (s - (s + 3) mod 7) + 7) div 7)])"
  using weekly_loop_fixedZone[of k "s - (s + 3) mod 7" e "[]"]
  by (simp add: generatePeriodRange_def startOfWeek_fixedZone[OF assms])

section \<open>Properties of the CSV parser\<close>

subsection \<open>The schema mapper\<close>

lemma columnMap_snoc:
  "columnMap (hs @ [h]) =
     (case classify h of None \<Rightarrow> columnMap hs | Some f \<Rightarrow> (columnMap hs)(f \<mapsto> length hs))"
proof -
  have "zip [0..<length (hs @ [h])] (hs @ [h]) = zip [0..<length hs] hs @ [(length hs, h)]"
    by simp
  then show ?thesis
    unfolding columnMap_def by (simp only: fold_append) simp
qed

lemma columnMap_Some_iff:
  "columnMap hs f = Some i \<longleftrightarrow>
     i < length hs \<and> classify (hs ! i) = Some f \<and>
     (\<forall>j. i < j \<and> j < length hs \<longrightarrow> classify (hs ! j) \<noteq> Some f)"
proof (induction hs arbitrary: i rule: rev_induct)
  case Nil
  then show ?case by (simp add: columnMap_def)
next
  case (snoc h hs)
  show ?case
  proof (cases "classify h = Some f")
    case True
    have "\<And>j. j < length hs \<Longrightarrow> \<not> (\<forall>k. j < k \<and> k < Suc (length hs) \<longrightarrow> classify ((hs @ [h]) ! k) \<noteq> Some f)"
      using True by (metis lessI nth_append_length)
    then show ?thesis
      using True by (auto simp: columnMap_snoc nth_append less_Suc_eq)
  next
    case False
    have eq: "columnMap (hs @ [h]) f = columnMap hs f"
      using False by (simp add: columnMap_snoc split: option.splits)
    show ?thesis
      unfolding eq snoc.IH using False
      by (auto simp: nth_append less_Suc_eq)
  qed
qed

lemma columnMap_None_iff:
  "columnMap hs f = None \<longleftrightarrow> (\<forall>i < length hs. classify (hs ! i) \<noteq> Some f)"
proof (induction hs rule: rev_induct)
  case Nil
  then show ?case by (simp add: columnMap_def)
next
  case (snoc h hs)
  then show ?case
    by (auto simp: columnMap_snoc nth_append less_Suc_eq split: option.splits)
qed

text \<open>
  Claim C7, as the code has it. Every header cell that stands for a field assigns its
  index to the field, a later cell overwriting an earlier one: a field is resolved to
  the last column that stands for it (to none if no column does). Which field a cell
  stands for is decided by \<open>classify\<close>: the first test of the chain that holds, the
  identifier by the two spellings \<open>Pascal ID\<close> and \<open>pascal id\<close> as they are written, the
  other fields by their Japanese label or, in any letter case, their English alias.
\<close>

theorem columnMap_last_match:
  "(columnMap headers f = Some i \<longleftrightarrow>
      i < length headers \<and> classify (headers ! i) = Some f \<and>
      (\<forall>j. i < j \<and> j < length headers \<longrightarrow> classify (headers ! j) \<noteq> Some f))
   \<and> (columnMap headers f = None \<longleftrightarrow> (\<forall>i < length headers. classify (headers ! i) \<noteq> Some f))"
  using columnMap_Some_iff[of headers f i] columnMap_None_iff[of headers f] by blast

theorem columnMap_last_match_witness:
  "classify (js ''Keyword 2'') = Some Keyword
   \<and> columnMap [js ''Pascal ID'', js ''keyword'', js ''Keyword 2''] Keyword = Some 2"
proof -
  have c: "classify (js ''Keyword 2'') = Some Keyword" by code_simp
  have v: "\<And>j::nat. \<not> (2 < j \<and> j < 3)" by arith
  have len: "length [js ''Pascal ID'', js ''keyword'', js ''Keyword 2''] = 3" by simp
  have "\<forall>j. (2::nat) < j \<and> j < length [js ''Pascal ID'', js ''keyword'', js ''Keyword 2'']
          \<longrightarrow> classify ([js ''Pascal ID'', js ''keyword'', js ''Keyword 2''] ! j) \<noteq> Some Keyword"
    unfolding len using v by blast
  then show ?thesis
    using c columnMap_last_match[of "[js ''Pascal ID'', js ''keyword'', js ''Keyword 2'']" Keyword 2]
    by simp
qed

text \<open>
  The claim as written fails: of two cells that stand for the keyword text, at indices 1
  and 2, the first does not win.
\<close>

theorem columnMap_first_match_counterexample:
  "classify ([js ''Pascal ID'', js ''keyword'', js ''Keyword 2''] ! 1) = Some Keyword
   \<and> classify ([js ''Pascal ID'', js ''keyword'', js ''Keyword 2''] ! 2) = Some Keyword
   \<and> columnMap [js ''Pascal ID'', js ''keyword'', js ''Keyword 2''] Keyword \<noteq> Some 1"
  by code_simp

subsection \<open>The rows that give an entity\<close>

text \<open>
  The parts of the input the parser names \<open>headers\<close> and, from the second line on, the
  data rows; the cells of a row; the rows the specification counts (the identifier cell
  parses as an integer and the keyword cell is not empty); and the rows long enough for
  every mapped column.
\<close>

definition headersOf :: "jsstring \<Rightarrow> jsstring list" where
  "headersOf csvContent = map trim (split 44 (hd (split 10 (trim csvContent))))"

definition dataRowsOf :: "jsstring \<Rightarrow> jsstring list" where
  "dataRowsOf csvContent = tl (split 10 (trim csvContent))"

definition cellsOf :: "jsstring \<Rightarrow> jsstring list" where
  "cellsOf line = map trim (split 44 line)"

definition hasIdAndKeyword :: "(column \<rightharpoonup> nat) \<Rightarrow> jsstring \<Rightarrow> bool" where
  "hasIdAndKeyword cm line =
     ((case cm PascalId of
         None \<Rightarrow> False
       | Some i \<Rightarrow> (case cell (cellsOf line) i of None \<Rightarrow> False | Some c \<Rightarrow> parseInt c \<noteq> None))
      \<and> (case cm Keyword of
            None \<Rightarrow> False
          | Some i \<Rightarrow> (case cell (cellsOf line) i of None \<Rightarrow> False | Some c \<Rightarrow> c \<noteq> [])))"

definition hasRequiredCells :: "(column \<rightharpoonup> nat) \<Rightarrow> jsstring \<Rightarrow> bool" where
  "hasRequiredCells cm line = (requiredCells cm \<le> length (cellsOf line))"

lemma column_in_allColumns: "f \<in> set allColumns"
  by (cases f) (simp_all add: allColumns_def)

lemma requiredCells_gt:
  assumes "cm f = Some i"
  shows "i < requiredCells cm"
proof -
  have "i \<in> set (List.map_filter cm allColumns)"
    using assms column_in_allColumns[of f] by (force simp: List.map_filter_def)
  then have "i \<le> Max (set (List.map_filter cm allColumns))"
    by (intro Max_ge) simp_all
  then show ?thesis by (simp add: requiredCells_def)
qed

lemma parseRow_Some_iff:
  assumes "cm PascalId = Some a" and "cm Keyword = Some b"
  shows "parseRow cm dcs line \<noteq> None \<longleftrightarrow> hasRequiredCells cm line \<and> hasIdAndKeyword cm line"
proof (cases "hasRequiredCells cm line")
  case False
  then show ?thesis
    by (simp add: parseRow_def hasRequiredCells_def cellsOf_def Let_def)
next
  case True
  then have len: "a < length (cellsOf line)" "b < length (cellsOf line)"
    using requiredCells_gt[of cm PascalId a] requiredCells_gt[of cm Keyword b] assms
    by (simp_all add: hasRequiredCells_def)
  show ?thesis
    using True len assms
    by (auto simp: parseRow_def hasRequiredCells_def hasIdAndKeyword_def cellsOf_def cell_def Let_def
        split: option.splits)
qed

lemma length_map_filter: "length (List.map_filter f xs) = length (filter (\<lambda>x. f x \<noteq> None) xs)"
  by (simp add: List.map_filter_def)

lemma parsePascalCsv_keywords:
  assumes "parsePascalCsv csvContent = Inr r"
  shows "csvKeywords r =
           map fst (List.map_filter
                      (parseRow (columnMap (headersOf csvContent)) (dateColumns (headersOf csvContent)))
                      (dataRowsOf csvContent))
         \<and> columnMap (headersOf csvContent) PascalId \<noteq> None
         \<and> columnMap (headersOf csvContent) Keyword \<noteq> None"
  using assms
  by (auto simp: parsePascalCsv_def headersOf_def dataRowsOf_def Let_def split: if_splits)

text \<open>
  Claim C6, as the code has it. When the parser returns, the number of entities is the
  number of data rows that have a cell for every mapped column, an identifier cell that
  parses as an integer and a keyword cell that is not empty. A row with fewer cells than
  the highest mapped column asks for is skipped, whatever its first cells hold.
\<close>

theorem entity_count:
  assumes "parsePascalCsv csvContent = Inr r"
  shows "length (csvKeywords r) =
           length (filter (\<lambda>line. hasRequiredCells (columnMap (headersOf csvContent)) line
                                 \<and> hasIdAndKeyword (columnMap (headersOf csvContent)) line)
                          (dataRowsOf csvContent))"
proof -
  obtain a b where ab: "columnMap (headersOf csvContent) PascalId = Some a"
      "columnMap (headersOf csvContent) Keyword = Some b"
    using parsePascalCsv_keywords[OF assms] by auto
  have k: "csvKeywords r =
           map fst (List.map_filter
                      (parseRow (columnMap (headersOf csvContent)) (dateColumns (headersOf csvContent)))
                      (dataRowsOf csvContent))"
    using parsePascalCsv_keywords[OF assms] by blast
  show ?thesis
    by (simp only: k length_map length_map_filter parseRow_Some_iff[OF ab])
qed

theorem entity_count_witness:
  "parsePascalCsv (js ''Pascal ID,keyword,area,2025/1/1'' @ [10] @ js ''7,foo,tokyo,3''
                   @ [10] @ js ''8,bar'' @ [10] @ js ''x,baz,osaka,4'')
     = Inr \<lparr>csvKeywords =
              [\<lparr>PascalKeywordData.pascal_id = Finite 7, keyword_text = js ''foo'',
                monthly_search_volume = None, domain_url = None, site_name = None,
                rank_type = None, area = Some (js ''tokyo''), device_type = None,
                landing_page = None\<rparr>],
            csvRankings =
              [\<lparr>PascalRankingData.pascal_id = Finite 7, date = isoDate 2025 1 1,
                rank = Finite 3\<rparr>]\<rparr>
   \<and> length (filter (\<lambda>line.
          hasRequiredCells (columnMap (headersOf (js ''Pascal ID,keyword,area,2025/1/1'' @ [10]
             @ js ''7,foo,tokyo,3'' @ [10] @ js ''8,bar'' @ [10] @ js ''x,baz,osaka,4''))) line
          \<and> hasIdAndKeyword (columnMap (headersOf (js ''Pascal ID,keyword,area,2025/1/1'' @ [10]
             @ js ''7,foo,tokyo,3'' @ [10] @ js ''8,bar'' @ [10] @ js ''x,baz,osaka,4''))) line)
        (dataRowsOf (js ''Pascal ID,keyword,area,2025/1/1'' @ [10] @ js ''7,foo,tokyo,3''
                   @ [10] @ js ''8,bar'' @ [10] @ js ''x,baz,osaka,4''))) = 1"
proof -
  have eq: "parsePascalCsv (js ''Pascal ID,keyword,area,2025/1/1'' @ [10] @ js ''7,foo,tokyo,3''
                   @ [10] @ js ''8,bar'' @ [10] @ js ''x,baz,osaka,4'')
     = Inr \<lparr>csvKeywords =
              [\<lparr>PascalKeywordData.pascal_id = Finite 7, keyword_text = js ''foo'',
                monthly_search_volume = None, domain_url = None, site_name = None,
                rank_type = None, area = Some (js ''tokyo''), device_type = None,
                landing_page = None\<rparr>],
            csvRankings =
              [\<lparr>PascalRankingData.pascal_id = Finite 7, date = isoDate 2025 1 1,
                rank = Finite 3\<rparr>]\<rparr>"
    by code_simp
  show ?thesis
    using eq entity_count[OF eq] by simp
qed

text \<open>
  The claim as written fails: the only data row has the identifier 7 and the keyword
  \<open>foo\<close>, so the specification counts one row, but the row has two cells where the
  mapped \<open>area\<close> column asks for three, and the parser returns no entity.
\<close>

theorem entity_count_counterexample:
  "parsePascalCsv (js ''Pascal ID,keyword,area,2025/1/1'' @ [10] @ js ''7,foo'')
     = Inr \<lparr>csvKeywords = [], csvRankings = []\<rparr>
   \<and> length (filter (hasIdAndKeyword
                       (columnMap (headersOf (js ''Pascal ID,keyword,area,2025/1/1'' @ [10] @ js ''7,foo''))))
               (dataRowsOf (js ''Pascal ID,keyword,area,2025/1/1'' @ [10] @ js ''7,foo''))) = 1"
  by code_simp

subsection \<open>The cells that give a fact\<close>

text \<open>The Number value of an integer: its sign, and the integers it leaves as they are.\<close>

lemma bitLength_le: "a < 2 ^ k \<Longrightarrow> bitLength a \<le> k"
proof (induction k arbitrary: a)
  case 0
  then show ?case by (subst bitLength.simps) simp
next
  case (Suc k)
  show ?case
  proof (cases "a \<le> 0")
    case True
    then show ?thesis by (subst bitLength.simps) simp
  next
    case False
    have "a div 2 < 2 ^ k" using Suc.prems by simp
    then have "bitLength (a div 2) \<le> k" by (rule Suc.IH)
    then show ?thesis using False by (subst bitLength.simps) simp
  qed
qed

lemma bitLength_lower: "0 < a \<Longrightarrow> 2 ^ bitLength a \<le> 2 * a"
proof (induction a rule: bitLength.induct)
  case (1 a)
  show ?case
  proof (cases "a div 2 \<le> 0")
    case True
    then have a: "a = 1" using 1(2) by simp
    have "bitLength 1 = 1"
      by (subst bitLength.simps, subst bitLength.simps) simp
    then show ?thesis unfolding a by simp
  next
    case False
    then have ih: "2 ^ bitLength (a div 2) \<le> 2 * (a div 2)"
      using 1 by simp
    have "2 * (a div 2) \<le> a" by simp
    then have "2 * 2 ^ bitLength (a div 2) \<le> 2 * a" using ih by linarith
    moreover have "bitLength a = Suc (bitLength (a div 2))"
      using 1(2) by (subst bitLength.simps) simp
    ultimately show ?thesis by simp
  qed
qed

lemma roundedMagnitude_small:
  assumes "a < 2 ^ 53"
  shows "roundedMagnitude a = a"
  using bitLength_le[OF assms] by (simp add: roundedMagnitude_def Let_def)

lemma roundedMagnitude_pos:
  assumes "0 < a"
  shows "0 < roundedMagnitude a"
proof (cases "int (bitLength a) - 53 \<le> 0")
  case True
  then show ?thesis using assms by (simp add: roundedMagnitude_def Let_def)
next
  case False
  define e where "e = nat (int (bitLength a) - 53)"
  define p where "p = (2::int) ^ e"
  define q where "q = a div p"
  define u where "u = (if p < 2 * (a mod p) \<or> (2 * (a mod p) = p \<and> odd q) then q + 1 else q)"
  have ppos: "0 < p" by (simp add: p_def)
  have "bitLength a = 53 + e" using False by (simp add: e_def)
  then have "2 ^ 53 * p \<le> 2 * a"
    using bitLength_lower[OF assms] by (simp add: p_def power_add)
  moreover have "2 * p \<le> 2 ^ 53 * p" using ppos by simp
  ultimately have "p \<le> a" by linarith
  then have "p div p \<le> a div p" using ppos by (rule zdiv_mono1)
  then have "1 \<le> q" using ppos by (simp add: q_def)
  then have "1 \<le> u" by (simp add: u_def)
  then have "0 < u * p" using ppos by simp
  moreover have "roundedMagnitude a = u * p"
    unfolding roundedMagnitude_def Let_def u_def q_def p_def e_def using False by simp
  ultimately show ?thesis by simp
qed

lemma numberValue_small:
  assumes "\<bar>x\<bar> < 2 ^ 53"
  shows "numberValue x = Finite x"
proof -
  have "\<bar>x\<bar> < 2 ^ 1024"
    by (rule less_trans[OF assms]) simp
  then show ?thesis
    unfolding numberValue_def Let_def roundedMagnitude_small[OF assms] by simp
qed

lemma numberValue_sign: "isPositive (numberValue x) \<longleftrightarrow> 0 < x"
proof (cases "x = 0")
  case True
  show ?thesis unfolding True by (simp add: numberValue_small isPositive_def)
next
  case False
  then have "0 < roundedMagnitude \<bar>x\<bar>" by (intro roundedMagnitude_pos) simp
  then show ?thesis
    using False by (auto simp: numberValue_def Let_def isPositive_def)
qed

lemma parseInt_special:
  "parseInt [] = None" "parseInt (js ''-'') = None" "parseInt (js ''0'') = Some (Finite 0)"
  by code_simp+

lemma isDigit_not_space: "isDigit c \<Longrightarrow> \<not> isWhiteSpace c"
  by (auto simp: isDigit_def isWhiteSpace_def)

lemma isDigit_radix: "isDigit c \<Longrightarrow> isRadixDigit 10 c"
  by (auto simp: isDigit_def isRadixDigit_def digitValue_def)

lemma digits_not_hex:
  assumes "list_all isDigit c"
  shows "\<not> startsWith c (js ''0x'')" and "\<not> startsWith c (js ''0X'')"
proof -
  have j: "js ''0x'' = [48, 120]" "js ''0X'' = [48, 88]" by code_simp+
  have "\<not> isDigit 120" "\<not> isDigit 88" by (simp_all add: isDigit_def)
  then show "\<not> startsWith c (js ''0x'')" "\<not> startsWith c (js ''0X'')"
    using assms unfolding j startsWith_def
    by (cases c; cases "tl c"; auto)+
qed

lemma digitsValue_nonneg:
  assumes "list_all isDigit ds"
  shows "0 \<le> digitsValue 10 ds"
proof -
  have "0 \<le> a \<Longrightarrow> list_all isDigit ds
          \<Longrightarrow> 0 \<le> foldl (\<lambda>a c. 10 * a + the (digitValue c)) a ds" for a
  proof (induction ds arbitrary: a)
    case Nil
    then show ?case by simp
  next
    case (Cons d ds)
    have "0 \<le> the (digitValue d)" using Cons.prems(2) by (simp add: isDigit_def digitValue_def)
    then have "0 \<le> 10 * a + the (digitValue d)" using Cons.prems(1) by simp
    then show ?case using Cons.IH Cons.prems(2) by simp
  qed
  then show ?thesis using assms by (simp add: digitsValue_def)
qed

lemma parseInt_digits:
  assumes "c \<noteq> []" and "list_all isDigit c"
  shows "parseInt c = Some (numberValue (digitsValue 10 c))"
proof -
  obtain x xs where c: "c = x # xs" using assms(1) by (cases c) auto
  have x: "isDigit x" using assms(2) c by simp
  have ws: "dropWhile isWhiteSpace c = c"
    using isDigit_not_space[OF x] c by simp
  have sg: "hd c \<noteq> 45" "hd c \<noteq> 43" using x c by (auto simp: isDigit_def)
  have tw: "takeWhile (isRadixDigit 10) c = c"
    using assms(2) isDigit_radix by (simp add: takeWhile_eq_all_conv list_all_iff)
  show ?thesis
    unfolding parseInt_def Let_def ws
    using sg digits_not_hex[OF assms(2)] assms(1) by (simp add: tw)
qed

lemma parseInt_negative:
  assumes "ds \<noteq> []" and "list_all isDigit ds"
  shows "parseInt (45 # ds) = Some (numberValue (- digitsValue 10 ds))"
proof -
  have ws: "dropWhile isWhiteSpace (45 # ds) = 45 # ds"
    by (simp add: isWhiteSpace_def)
  have tw: "takeWhile (isRadixDigit 10) ds = ds"
    using assms(2) isDigit_radix by (simp add: takeWhile_eq_all_conv list_all_iff)
  show ?thesis
    unfolding parseInt_def Let_def ws
    using digits_not_hex[OF assms(2)] assms(1) by (simp add: tw)
qed

lemma dateCell_cases:
  "dateCell pid vals col =
     (case cell vals (fst col) of
        None \<Rightarrow> []
      | Some c \<Rightarrow>
          (case parseInt c of
             None \<Rightarrow> []
           | Some n \<Rightarrow>
               if isPositive n
               then [\<lparr>PascalRankingData.pascal_id = pid, date = snd col, rank = n\<rparr>]
               else []))"
  using parseInt_special(1,2)
  by (auto simp: dateCell_def split: option.splits)

text \<open>
  The identifier of a row the parser keeps, and the facts of the parser's output: the
  facts of the kept rows, row after row, and within a row date column after date column.
\<close>

definition idOfRow :: "(column \<rightharpoonup> nat) \<Rightarrow> jsstring \<Rightarrow> number" where
  "idOfRow cm line = the (parseInt (cellsOf line ! the (cm PascalId)))"

lemma parseRow_kept:
  assumes "parseRow cm dcs line = Some (k, fs)"
  shows "fs = concat (map (dateCell (idOfRow cm line) (cellsOf line)) dcs)"
  using assms
  by (auto simp: parseRow_def cellsOf_def idOfRow_def Let_def split: if_splits option.splits)

lemma concat_map_filter:
  "concat (map snd (List.map_filter f xs))
     = concat (map (\<lambda>x. snd (the (f x))) (filter (\<lambda>x. f x \<noteq> None) xs))"
  by (induction xs) (auto simp: List.map_filter_def)

lemma parsePascalCsv_rankings:
  assumes "parsePascalCsv csvContent = Inr r"
  shows "csvRankings r =
           concat (map (\<lambda>line. concat (map (dateCell (idOfRow (columnMap (headersOf csvContent)) line)
                                             (cellsOf line))
                                        (dateColumns (headersOf csvContent))))
                       (filter (\<lambda>line. hasRequiredCells (columnMap (headersOf csvContent)) line
                                      \<and> hasIdAndKeyword (columnMap (headersOf csvContent)) line)
                               (dataRowsOf csvContent)))"
proof -
  let ?cm = "columnMap (headersOf csvContent)"
  let ?dcs = "dateColumns (headersOf csvContent)"
  obtain a b where ab: "?cm PascalId = Some a" "?cm Keyword = Some b"
    using parsePascalCsv_keywords[OF assms] by auto
  have r: "csvRankings r = concat (map snd (List.map_filter (parseRow ?cm ?dcs) (dataRowsOf csvContent)))"
    using assms
    by (auto simp: parsePascalCsv_def headersOf_def dataRowsOf_def Let_def split: if_splits)
  have s: "snd (the (parseRow ?cm ?dcs line))
             = concat (map (dateCell (idOfRow ?cm line) (cellsOf line)) ?dcs)"
    if h: "parseRow ?cm ?dcs line \<noteq> None" for line
  proof -
    obtain kf where kf: "parseRow ?cm ?dcs line = Some kf" using h by blast
    obtain k fs where "kf = (k, fs)" by (cases kf)
    then have p: "parseRow ?cm ?dcs line = Some (k, fs)" using kf by simp
    show ?thesis unfolding p using parseRow_kept[OF p] by simp
  qed
  have "map (\<lambda>x. snd (the (parseRow ?cm ?dcs x)))
            (filter (\<lambda>x. parseRow ?cm ?dcs x \<noteq> None) (dataRowsOf csvContent))
        = map (\<lambda>line. concat (map (dateCell (idOfRow ?cm line) (cellsOf line)) ?dcs))
            (filter (\<lambda>x. parseRow ?cm ?dcs x \<noteq> None) (dataRowsOf csvContent))"
    by (rule map_cong) (simp_all add: s)
  then show ?thesis
    unfolding r concat_map_filter by (simp only: parseRow_Some_iff[OF ab])
qed

text \<open>
  Claim C4, as the code has it. When the parser returns, its facts are exactly the facts
  of the cells: for every data row the parser keeps (identifier \<open>pid\<close>, cells \<open>vals\<close>), in
  order, and every date column \<open>col\<close> (index and date), in order, the cell gives no fact
  or one. It gives one exactly when \<open>parseInt\<close> of the cell is a number greater than 0,
  and the rank of the fact is that number. So a cell that is missing, empty, a dash or
  \<open>0\<close>, a cell without a leading integer, and a negative number (a minus sign and
  decimal digits) give no fact; a cell of decimal digits with a positive value gives the
  one fact whose rank is the Number value of that integer, the integer itself below
  \<open>2^53\<close>. \<open>parseInt\<close> reads the longest leading integer and ignores the rest of the cell.
\<close>

theorem date_cell_fact:
  "(parsePascalCsv csvContent = Inr r \<longrightarrow>
      csvRankings r =
        concat (map (\<lambda>line. concat (map (dateCell (idOfRow (columnMap (headersOf csvContent)) line)
                                          (cellsOf line))
                                     (dateColumns (headersOf csvContent))))
                    (filter (\<lambda>line. hasRequiredCells (columnMap (headersOf csvContent)) line
                                   \<and> hasIdAndKeyword (columnMap (headersOf csvContent)) line)
                            (dataRowsOf csvContent))))
   \<and> (cell vals (fst col) = None \<longrightarrow> dateCell pid vals col = [])
   \<and> (cell vals (fst col) = Some c \<longrightarrow>
        dateCell pid vals col =
          (case parseInt c of
             None \<Rightarrow> []
           | Some n \<Rightarrow>
               if isPositive n
               then [\<lparr>PascalRankingData.pascal_id = pid, date = snd col, rank = n\<rparr>]
               else [])
        \<and> (c = js ''-'' \<or> c = [] \<or> c = js ''0'' \<longrightarrow> dateCell pid vals col = [])
        \<and> (parseInt c = None \<longrightarrow> dateCell pid vals col = [])
        \<and> (\<forall>ds. c = 45 # ds \<and> ds \<noteq> [] \<and> list_all isDigit ds \<longrightarrow> dateCell pid vals col = [])
        \<and> (c \<noteq> [] \<and> list_all isDigit c \<longrightarrow>
             parseInt c = Some (numberValue (digitsValue 10 c))
             \<and> (digitsValue 10 c \<le> 0 \<longrightarrow> dateCell pid vals col = [])
             \<and> (0 < digitsValue 10 c \<longrightarrow>
                  dateCell pid vals col =
                    [\<lparr>PascalRankingData.pascal_id = pid, date = snd col,
                      rank = numberValue (digitsValue 10 c)\<rparr>])
             \<and> (digitsValue 10 c < 2 ^ 53 \<longrightarrow>
                  numberValue (digitsValue 10 c) = Finite (digitsValue 10 c))))"
proof (intro conjI impI allI)
  show "parsePascalCsv csvContent = Inr r \<Longrightarrow>
      csvRankings r =
        concat (map (\<lambda>line. concat (map (dateCell (idOfRow (columnMap (headersOf csvContent)) line)
                                          (cellsOf line))
                                     (dateColumns (headersOf csvContent))))
                    (filter (\<lambda>line. hasRequiredCells (columnMap (headersOf csvContent)) line
                                   \<and> hasIdAndKeyword (columnMap (headersOf csvContent)) line)
                            (dataRowsOf csvContent)))"
    by (rule parsePascalCsv_rankings)
  show "cell vals (fst col) = None \<Longrightarrow> dateCell pid vals col = []"
    by (simp add: dateCell_cases)
  show "cell vals (fst col) = Some c \<Longrightarrow>
        dateCell pid vals col =
          (case parseInt c of
             None \<Rightarrow> []
           | Some n \<Rightarrow>
               if isPositive n
               then [\<lparr>PascalRankingData.pascal_id = pid, date = snd col, rank = n\<rparr>]
               else [])"
    by (simp add: dateCell_cases)
  show "cell vals (fst col) = Some c \<Longrightarrow> c = js ''-'' \<or> c = [] \<or> c = js ''0''
          \<Longrightarrow> dateCell pid vals col = []"
    by (auto simp: dateCell_cases parseInt_special isPositive_def)
  show "cell vals (fst col) = Some c \<Longrightarrow> parseInt c = None \<Longrightarrow> dateCell pid vals col = []"
    by (simp add: dateCell_cases)
  show "cell vals (fst col) = Some c \<Longrightarrow> c = 45 # ds \<and> ds \<noteq> [] \<and> list_all isDigit ds
          \<Longrightarrow> dateCell pid vals col = []" for ds
    using digitsValue_nonneg[of ds]
    by (simp add: dateCell_cases parseInt_negative numberValue_sign)
  show "cell vals (fst col) = Some c \<Longrightarrow> c \<noteq> [] \<and> list_all isDigit c
          \<Longrightarrow> parseInt c = Some (numberValue (digitsValue 10 c))"
    by (simp add: parseInt_digits)
  show "cell vals (fst col) = Some c \<Longrightarrow> c \<noteq> [] \<and> list_all isDigit c
          \<Longrightarrow> digitsValue 10 c \<le> 0 \<Longrightarrow> dateCell pid vals col = []"
    by (simp add: dateCell_cases parseInt_digits numberValue_sign)
  show "cell vals (fst col) = Some c \<Longrightarrow> c \<noteq> [] \<and> list_all isDigit c
          \<Longrightarrow> 0 < digitsValue 10 c
          \<Longrightarrow> dateCell pid vals col =
                    [\<lparr>PascalRankingData.pascal_id = pid, date = snd col,
                      rank = numberValue (digitsValue 10 c)\<rparr>]"
    by (simp add: dateCell_cases parseInt_digits numberValue_sign)
  show "cell vals (fst col) = Some c \<Longrightarrow> c \<noteq> [] \<and> list_all isDigit c
          \<Longrightarrow> digitsValue 10 c < 2 ^ 53
          \<Longrightarrow> numberValue (digitsValue 10 c) = Finite (digitsValue 10 c)"
    using digitsValue_nonneg[of c] by (intro numberValue_small) simp
qed

theorem date_cell_fact_witness:
  "parsePascalCsv (js ''Pascal ID,keyword,2025/1/1,2025/1/2,2025/1/3,2025/1/4'' @ [10]
                   @ js ''7,foo,12,-,-3,0'' @ [10] @ js ''x,bar,5,5,5,5'')
     = Inr \<lparr>csvKeywords =
              [\<lparr>PascalKeywordData.pascal_id = Finite 7, keyword_text = js ''foo'',
                monthly_search_volume = None, domain_url = None, site_name = None,
                rank_type = None, area = None, device_type = None, landing_page = None\<rparr>],
            csvRankings =
              [\<lparr>PascalRankingData.pascal_id = Finite 7, date = isoDate 2025 1 1,
                rank = Finite 12\<rparr>]\<rparr>
   \<and> concat (map (\<lambda>line. concat (map
          (dateCell (idOfRow (columnMap (headersOf
             (js ''Pascal ID,keyword,2025/1/1,2025/1/2,2025/1/3,2025/1/4'' @ [10]
              @ js ''7,foo,12,-,-3,0'' @ [10] @ js ''x,bar,5,5,5,5''))) line) (cellsOf line))
          (dateColumns (headersOf
             (js ''Pascal ID,keyword,2025/1/1,2025/1/2,2025/1/3,2025/1/4'' @ [10]
              @ js ''7,foo,12,-,-3,0'' @ [10] @ js ''x,bar,5,5,5,5'')))))
        (filter (\<lambda>line.
           hasRequiredCells (columnMap (headersOf
             (js ''Pascal ID,keyword,2025/1/1,2025/1/2,2025/1/3,2025/1/4'' @ [10]
              @ js ''7,foo,12,-,-3,0'' @ [10] @ js ''x,bar,5,5,5,5''))) line
           \<and> hasIdAndKeyword (columnMap (headersOf
             (js ''Pascal ID,keyword,2025/1/1,2025/1/2,2025/1/3,2025/1/4'' @ [10]
              @ js ''7,foo,12,-,-3,0'' @ [10] @ js ''x,bar,5,5,5,5''))) line)
          (dataRowsOf
             (js ''Pascal ID,keyword,2025/1/1,2025/1/2,2025/1/3,2025/1/4'' @ [10]
              @ js ''7,foo,12,-,-3,0'' @ [10] @ js ''x,bar,5,5,5,5''))))
       = [\<lparr>PascalRankingData.pascal_id = Finite 7, date = isoDate 2025 1 1,
            rank = Finite 12\<rparr>]
   \<and> dateCell (Finite 7) [js ''7'', js ''foo'', js ''12'', js ''-'', js ''-3'', js ''0'']
       (2, isoDate 2025 1 1)
       = [\<lparr>PascalRankingData.pascal_id = Finite 7, date = isoDate 2025 1 1,
            rank = Finite 12\<rparr>]
   \<and> dateCell (Finite 7) [js ''7'', js ''foo'', js ''12'', js ''-'', js ''-3'', js ''0'']
       (3, isoDate 2025 1 2) = []
   \<and> dateCell (Finite 7) [js ''7'', js ''foo'', js ''12'', js ''-'', js ''-3'', js ''0'']
       (4, isoDate 2025 1 3) = []
   \<and> dateCell (Finite 7) [js ''7'', js ''foo'', js ''12'', js ''-'', js ''-3'', js ''0'']
       (5, isoDate 2025 1 4) = []
   \<and> dateCell (Finite 7) [js ''7'', js ''foo'', js ''12'', js ''-'', js ''-3'', js ''0'']
       (6, isoDate 2025 1 5) = []"
proof -
  let ?csv = "js ''Pascal ID,keyword,2025/1/1,2025/1/2,2025/1/3,2025/1/4'' @ [10]
              @ js ''7,foo,12,-,-3,0'' @ [10] @ js ''x,bar,5,5,5,5''"
  let ?f = "\<lparr>PascalRankingData.pascal_id = Finite 7, date = isoDate 2025 1 1,
             rank = Finite 12\<rparr>"
  let ?r = "\<lparr>csvKeywords =
              [\<lparr>PascalKeywordData.pascal_id = Finite 7, keyword_text = js ''foo'',
                monthly_search_volume = None, domain_url = None, site_name = None,
                rank_type = None, area = None, device_type = None, landing_page = None\<rparr>],
            csvRankings = [?f]\<rparr>"
  let ?vals = "[js ''7'', js ''foo'', js ''12'', js ''-'', js ''-3'', js ''0'']"
  have eq: "parsePascalCsv ?csv = Inr ?r" by code_simp
  have c0: "cell ?vals 2 = Some (js ''12'')" "cell ?vals 3 = Some (js ''-'')"
    "cell ?vals 4 = Some (js ''-3'')" "cell ?vals 5 = Some (js ''0'')" "cell ?vals 6 = None"
    by code_simp+
  have c: "cell ?vals (fst (2::nat, isoDate 2025 1 1)) = Some (js ''12'')"
    "cell ?vals (fst (3::nat, isoDate 2025 1 2)) = Some (js ''-'')"
    "cell ?vals (fst (4::nat, isoDate 2025 1 3)) = Some (js ''-3'')"
    "cell ?vals (fst (5::nat, isoDate 2025 1 4)) = Some (js ''0'')"
    "cell ?vals (fst (6::nat, isoDate 2025 1 5)) = None"
    using c0 by simp_all
  have d: "js ''12'' \<noteq> []" "list_all isDigit (js ''12'')" "digitsValue 10 (js ''12'') = 12"
    "js ''-3'' = 45 # js ''3''" "js ''3'' \<noteq> []" "list_all isDigit (js ''3'')"
    by code_simp+
  have n: "numberValue 12 = Finite 12" by code_simp
  have A0: "csvRankings ?r =
           concat (map (\<lambda>line. concat (map
             (dateCell (idOfRow (columnMap (headersOf ?csv)) line) (cellsOf line))
             (dateColumns (headersOf ?csv))))
           (filter (\<lambda>line. hasRequiredCells (columnMap (headersOf ?csv)) line
                          \<and> hasIdAndKeyword (columnMap (headersOf ?csv)) line)
             (dataRowsOf ?csv)))"
    using date_cell_fact[where csvContent = ?csv and r = ?r] eq by blast
  have A: "concat (map (\<lambda>line. concat (map
             (dateCell (idOfRow (columnMap (headersOf ?csv)) line) (cellsOf line))
             (dateColumns (headersOf ?csv))))
           (filter (\<lambda>line. hasRequiredCells (columnMap (headersOf ?csv)) line
                          \<and> hasIdAndKeyword (columnMap (headersOf ?csv)) line)
             (dataRowsOf ?csv))) = [?f]"
    unfolding A0[symmetric] by simp
  have p12: "0 < digitsValue 10 (js ''12'')" unfolding d(3) by simp
  have B0: "dateCell (Finite 7) ?vals (2, isoDate 2025 1 1) =
              [\<lparr>PascalRankingData.pascal_id = Finite 7, date = snd (2::nat, isoDate 2025 1 1),
                rank = numberValue (digitsValue 10 (js ''12''))\<rparr>]"
    using date_cell_fact[where vals = ?vals and col = "(2, isoDate 2025 1 1)"
        and pid = "Finite 7" and c = "js ''12''"] c(1) d(1,2) p12
    by blast
  have B: "dateCell (Finite 7) ?vals (2, isoDate 2025 1 1) = [?f]"
    unfolding B0 d(3) n by simp
  have C: "dateCell (Finite 7) ?vals (3, isoDate 2025 1 2) = []"
    using date_cell_fact[where vals = ?vals and col = "(3, isoDate 2025 1 2)"
        and pid = "Finite 7" and c = "js ''-''"] c(2)
    by blast
  have D: "dateCell (Finite 7) ?vals (4, isoDate 2025 1 3) = []"
    using date_cell_fact[where vals = ?vals and col = "(4, isoDate 2025 1 3)"
        and pid = "Finite 7" and c = "js ''-3''"] c(3) d(4,5,6)
    by blast
  have E: "dateCell (Finite 7) ?vals (5, isoDate 2025 1 4) = []"
    using date_cell_fact[where vals = ?vals and col = "(5, isoDate 2025 1 4)"
        and pid = "Finite 7" and c = "js ''0''"] c(4)
    by blast
  have F: "dateCell (Finite 7) ?vals (6, isoDate 2025 1 5) = []"
    using date_cell_fact[where vals = ?vals and col = "(6, isoDate 2025 1 5)"
        and pid = "Finite 7"] c(5)
    by blast
  show ?thesis using eq A B C D E F by simp
qed

text \<open>
  The claim as written fails: the cells \<open>3.9\<close> and \<open>12abc\<close> are not integers and give the
  facts of rank 3 and 12, and the cell \<open>9007199254740993\<close> gives a fact whose rank is
  not that integer but the double next to it, 9007199254740992.
\<close>

theorem non_integer_cell_counterexample:
  "parsePascalCsv (js ''Pascal ID,keyword,2025/1/1,2025/1/2,2025/1/3'' @ [10]
                   @ js ''7,foo,3.9,12abc,9007199254740993'')
     = Inr \<lparr>csvKeywords =
              [\<lparr>PascalKeywordData.pascal_id = Finite 7, keyword_text = js ''foo'',
                monthly_search_volume = None, domain_url = None, site_name = None,
                rank_type = None, area = None, device_type = None, landing_page = None\<rparr>],
            csvRankings =
              [\<lparr>PascalRankingData.pascal_id = Finite 7, date = isoDate 2025 1 1,
                rank = Finite 3\<rparr>,
               \<lparr>PascalRankingData.pascal_id = Finite 7, date = isoDate 2025 1 2,
                rank = Finite 12\<rparr>,
               \<lparr>PascalRankingData.pascal_id = Finite 7, date = isoDate 2025 1 3,
                rank = Finite 9007199254740992\<rparr>]\<rparr>"
  by code_simp

section \<open>Properties of the import orchestrator\<close>

subsection \<open>The orchestrator returns a result\<close>

lemma progress_cases:
  "progress cb c st = Inr st \<or> progress cb c st = Inl (CallbackError, st)"
  by (simp add: progress_def split: option.splits)

text \<open>
  The input never reaches the persistence stage: the validator reports an error, the
  parser throws, or the parser finds no entity.
\<close>

definition abortsBeforePersistence :: "jsstring \<Rightarrow> bool" where
  "abortsBeforePersistence csvContent =
     (validatePascalCsv csvContent \<noteq> []
      \<or> (case parsePascalCsv csvContent of Inl e \<Rightarrow> True | Inr csvData \<Rightarrow> csvKeywords csvData = []))"

text \<open>What an aborted run leaves: no request, the store as it was, no success.\<close>

definition untouched :: "'s run \<Rightarrow> 's run \<Rightarrow> bool" where
  "untouched st0 st =
     (db st = db st0 \<and> requests st = requests st0
      \<and> success (result st) = success (result st0))"

lemma importBody_abort:
  assumes "abortsBeforePersistence csvContent"
  shows "(\<exists>st. importBody gw cb csvContent st0 = Inr st \<and> untouched st0 st \<and> errors (result st) \<noteq> [])
         \<or> (\<exists>e st. importBody gw cb csvContent st0 = Inl (e, st) \<and> untouched st0 st)"
proof -
  note p1 = progress_cases[of cb 1 st0]
  show ?thesis
  proof (cases "validatePascalCsv csvContent = []")
    case False
    then show ?thesis
      using p1 by (auto simp: importBody_def andThen_def untouched_def Let_def)
  next
    case True
    note p2 = progress_cases[of cb 2 st0]
    from True assms have
      "(\<exists>e. parsePascalCsv csvContent = Inl e)
       \<or> (\<exists>d. parsePascalCsv csvContent = Inr d \<and> csvKeywords d = [])"
      by (auto simp: abortsBeforePersistence_def split: sum.splits)
    then show ?thesis
      using True p1 p2
      by (auto simp: importBody_def andThen_def untouched_def addError_def Let_def)
  qed
qed

text \<open>
  Claim C5, as the code has it. The orchestrator always returns a structured result and
  never throws: for every gateway, progress callback, store and input the call ends
  with a result. The body stands in one \<open>try\<close> whose \<open>catch\<close> returns the result too. When
  the input never reaches the persistence stage (the validator reports an error, the
  parser throws, or no entity is parsed), the result has \<open>success\<close> unset and at least
  one error, no request has been sent and the store is as it was.
\<close>

theorem import_returns_result:
  "\<exists>out. importPascalCsv gw cb s csvContent = Inr out
     \<and> (abortsBeforePersistence csvContent \<longrightarrow>
          \<not> success (returned out) \<and> errors (returned out) \<noteq> [] \<and> sent out = []
          \<and> store out = s)"
proof (cases "abortsBeforePersistence csvContent")
  case False
  then show ?thesis
    by (auto simp: importPascalCsv_def split: sum.splits prod.splits)
next
  case True
  let ?st0 = "\<lparr>result = initialResult, db = s, requests = [], keywordIdMap = Map.empty\<rparr>"
  from importBody_abort[OF True, of gw cb ?st0]
  show ?thesis
    by (auto simp: importPascalCsv_def untouched_def outcomeOf_def addError_def initialResult_def)
qed

theorem import_returns_result_witness:
  "abortsBeforePersistence []
   \<and> (\<exists>out. importPascalCsv (storeGateway rejectKeywordInt4 rejectBatchInt4) None emptyTables []
              = Inr out
         \<and> \<not> success (returned out) \<and> errors (returned out) \<noteq> [] \<and> sent out = []
         \<and> store out = emptyTables)"
proof -
  have "validatePascalCsv [] = [NeedsHeaderAndRow]" by code_simp
  then have a: "abortsBeforePersistence []" by (simp add: abortsBeforePersistence_def)
  show ?thesis
    using a import_returns_result[of "storeGateway rejectKeywordInt4 rejectBatchInt4" None emptyTables "[]"]
    by simp
qed

text \<open>
  The claim as written fails: the empty input and a header without a keyword column of
  its own (which passes the validator and makes the parser throw) both end with a
  returned result, \<open>Inr\<close>, not with a thrown error.
\<close>

theorem import_abort_counterexample:
  "importPascalCsv (storeGateway rejectKeywordInt4 rejectBatchInt4) None emptyTables []
     = Inr \<lparr>returned =
              \<lparr>success = False, totalKeywords = 0, importedKeywords = 0, updatedKeywords = 0,
               totalRankings = 0, importedRankings = 0, errors = [Invalid NeedsHeaderAndRow],
               summary = None\<rparr>,
            store = emptyTables, sent = []\<rparr>
   \<and> importPascalCsv (storeGateway rejectKeywordInt4 rejectBatchInt4) None emptyTables
        (js ''Pascal ID keyword,2025/1/1'' @ [10] @ js ''1,2'')
     = Inr \<lparr>returned =
              \<lparr>success = False, totalKeywords = 0, importedKeywords = 0, updatedKeywords = 0,
               totalRankings = 0, importedRankings = 0,
               errors = [ImportFailed (ParseError MissingRequiredColumns)], summary = None\<rparr>,
            store = emptyTables, sent = []\<rparr>"
proof -
  have v1: "validatePascalCsv [] = [NeedsHeaderAndRow]" by code_simp
  have v2: "validatePascalCsv (js ''Pascal ID keyword,2025/1/1'' @ [10] @ js ''1,2'') = []"
    by code_simp
  have p2: "parsePascalCsv (js ''Pascal ID keyword,2025/1/1'' @ [10] @ js ''1,2'')
              = Inl MissingRequiredColumns"
    by code_simp
  show ?thesis
    unfolding importPascalCsv_def importBody_def v1 v2 p2
    by (simp add: progress_def andThen_def outcomeOf_def initialResult_def addError_def)
qed

subsection \<open>Importing the same content twice\<close>

text \<open>
  Whether the progress callback throws depends on the call only, so the requests of the
  entity stage do not depend on the store: the stage sends the upserts of a list \<open>ks\<close> of
  entities and then goes on (\<open>ok\<close>) or throws.
\<close>

definition throws :: "(nat \<Rightarrow> nat \<Rightarrow> bool) option \<Rightarrow> nat \<Rightarrow> bool" where
  "throws cb c = (case cb of None \<Rightarrow> False | Some f \<Rightarrow> f c 10)"

lemma progress_throws:
  "progress cb c st = (if throws cb c then Inl (CallbackError, st) else Inr st)"
  by (simp add: progress_def throws_def split: option.splits)

lemma importKeywords_shape:
  "\<exists>ks ok. \<forall>st. importKeywords gw cb kws i st =
      (if ok then Inr (fold (importKeyword gw) ks st)
       else Inl (CallbackError, fold (importKeyword gw) ks st))"
proof (induction "length kws - i" arbitrary: i rule: less_induct)
  case less
  show ?case
  proof (cases "i < length kws")
    case False
    then have "\<forall>st. importKeywords gw cb kws i st = Inr (fold (importKeyword gw) [] st)"
      by (subst importKeywords.simps) simp
    then show ?thesis by (intro exI[of _ "[]"] exI[of _ True]) simp
  next
    case True
    let ?batch = "take 50 (drop i kws)"
    let ?c = "min 7 (3 + (4 * i) div length kws)"
    show ?thesis
    proof (cases "throws cb ?c")
      case t: True
      have "\<forall>st. importKeywords gw cb kws i st = Inl (CallbackError, fold (importKeyword gw) ?batch st)"
        using True t
        by (subst importKeywords.simps) (simp add: Let_def andThen_def progress_throws)
      then show ?thesis by (intro exI[of _ ?batch] exI[of _ False]) simp
    next
      case f: False
      have "length kws - (i + 50) < length kws - i" using True by simp
      from less[OF this] obtain ks ok where
        IH: "\<forall>st. importKeywords gw cb kws (i + 50) st =
               (if ok then Inr (fold (importKeyword gw) ks st)
                else Inl (CallbackError, fold (importKeyword gw) ks st))"
        by blast
      have "\<forall>st. importKeywords gw cb kws i st =
               (if ok then Inr (fold (importKeyword gw) (?batch @ ks) st)
                else Inl (CallbackError, fold (importKeyword gw) (?batch @ ks) st))"
      proof
        fix st
        have "importKeywords gw cb kws i st =
                importKeywords gw cb kws (i + 50) (fold (importKeyword gw) ?batch st)"
          using True f
          by (subst importKeywords.simps) (simp add: Let_def andThen_def progress_throws)
        then show "importKeywords gw cb kws i st =
               (if ok then Inr (fold (importKeyword gw) (?batch @ ks) st)
                else Inl (CallbackError, fold (importKeyword gw) (?batch @ ks) st))"
          using IH by simp
      qed
      then show ?thesis by blast
    qed
  qed
qed

text \<open>
  The effect of the entity upserts of a list \<open>ks\<close> on the store and on \<open>keywordIdMap\<close>.
  \<open>lastOk\<close> is the last entity of the list with a given identifier that the store does
  not reject: its fields are the ones the row ends with.
\<close>

definition lastOk ::
  "(PascalKeywordData \<Rightarrow> string option) \<Rightarrow> PascalKeywordData list \<Rightarrow> number \<Rightarrow> PascalKeywordData option" where
  "lastOk rK ks pid =
     (let xs = filter (\<lambda>k. rK k = None \<and> PascalKeywordData.pascal_id k = pid) ks
      in if xs = [] then None else Some (last xs))"

lemma lastOk_Nil: "lastOk rK [] pid = None"
  by (simp add: lastOk_def)

lemma lastOk_snoc:
  "lastOk rK (ks @ [k]) pid =
     (if rK k = None \<and> PascalKeywordData.pascal_id k = pid then Some k else lastOk rK ks pid)"
  by (simp add: lastOk_def Let_def)

definition kwEffect ::
  "(PascalKeywordData \<Rightarrow> string option) \<Rightarrow> PascalKeywordData list \<Rightarrow> tables \<Rightarrow> tables
     \<Rightarrow> (number \<rightharpoonup> kwid) \<Rightarrow> (number \<rightharpoonup> kwid) \<Rightarrow> bool" where
  "kwEffect rK ks s s' idm idm' =
     (rankingTable s' = rankingTable s
      \<and> (\<forall>pid row0. keywordTable s pid = Some row0 \<longrightarrow>
            (\<exists>row. keywordTable s' pid = Some row \<and> rowId row = rowId row0))
      \<and> (\<forall>pid. case lastOk rK ks pid of
                  None \<Rightarrow> keywordTable s' pid = keywordTable s pid \<and> idm' pid = idm pid
                | Some k \<Rightarrow> (\<exists>row. keywordTable s' pid = Some row \<and> rowData row = k
                                    \<and> idm' pid = Some (rowId row)))
      \<and> ((\<forall>pid. lastOk rK ks pid \<noteq> None \<longrightarrow> keywordTable s pid \<noteq> None) \<longrightarrow> nextId s' = nextId s))"

lemma importKeyword_rejected:
  assumes "rK k = Some msg"
  shows "db (importKeyword (storeGateway rK rB) k a) = db a"
    and "keywordIdMap (importKeyword (storeGateway rK rB) k a) = keywordIdMap a"
  using assms
  by (simp_all add: importKeyword_def storeGateway_def upsertEntity_def addError_def)

lemma importKeyword_update:
  assumes "rK k = None" and "keywordTable (db a) (PascalKeywordData.pascal_id k) = Some row"
  shows "db (importKeyword (storeGateway rK rB) k a) =
           (db a)\<lparr>keywordTable :=
              (keywordTable (db a))(PascalKeywordData.pascal_id k \<mapsto> row\<lparr>rowData := k\<rparr>)\<rparr>"
    and "keywordIdMap (importKeyword (storeGateway rK rB) k a) =
           (keywordIdMap a)(PascalKeywordData.pascal_id k \<mapsto> rowId row)"
  using assms
  by (simp_all add: importKeyword_def storeGateway_def upsertEntity_def)

lemma importKeyword_insert:
  assumes "rK k = None" and "keywordTable (db a) (PascalKeywordData.pascal_id k) = None"
  shows "db (importKeyword (storeGateway rK rB) k a) =
           (db a)\<lparr>keywordTable :=
              (keywordTable (db a))(PascalKeywordData.pascal_id k \<mapsto>
                 \<lparr>rowId = nextId (db a), rowData = k\<rparr>),
            nextId := Suc (nextId (db a))\<rparr>"
    and "keywordIdMap (importKeyword (storeGateway rK rB) k a) =
           (keywordIdMap a)(PascalKeywordData.pascal_id k \<mapsto> nextId (db a))"
  using assms
  by (simp_all add: importKeyword_def storeGateway_def upsertEntity_def)

lemma kwEffect_fold:
  "kwEffect rK ks (db a) (db (fold (importKeyword (storeGateway rK rB)) ks a))
     (keywordIdMap a) (keywordIdMap (fold (importKeyword (storeGateway rK rB)) ks a))"
proof (induction ks rule: rev_induct)
  case Nil
  then show ?case by (simp add: kwEffect_def lastOk_Nil)
next
  case (snoc k ks)
  let ?G = "storeGateway rK rB"
  let ?a1 = "fold (importKeyword ?G) ks a"
  let ?a2 = "importKeyword ?G k ?a1"
  let ?p = "PascalKeywordData.pascal_id k"
  have f: "fold (importKeyword ?G) (ks @ [k]) a = ?a2" by simp
  note IH = snoc.IH[unfolded kwEffect_def]
  show ?case
  proof (cases "rK k")
    case (Some msg)
    have l: "\<And>pid. lastOk rK (ks @ [k]) pid = lastOk rK ks pid"
      using Some by (simp add: lastOk_snoc)
    show ?thesis
      unfolding f kwEffect_def l importKeyword_rejected[of rK k msg rB, OF Some]
      using IH by blast
  next
    case None
    have l: "\<And>pid. lastOk rK (ks @ [k]) pid = (if pid = ?p then Some k else lastOk rK ks pid)"
      using None by (auto simp: lastOk_snoc)
    show ?thesis
    proof (cases "keywordTable (db ?a1) ?p")
      case (Some row)
      note u = importKeyword_update[of rK k ?a1 row rB, OF None Some]
      have 1: "rankingTable (db ?a2) = rankingTable (db a)"
        using IH by (simp add: u)
      have 2: "\<forall>pid row0. keywordTable (db a) pid = Some row0 \<longrightarrow>
                 (\<exists>row. keywordTable (db ?a2) pid = Some row \<and> rowId row = rowId row0)"
      proof (intro allI impI)
        fix pid row0 assume "keywordTable (db a) pid = Some row0"
        then obtain row1 where "keywordTable (db ?a1) pid = Some row1" "rowId row1 = rowId row0"
          using IH by blast
        then show "\<exists>row. keywordTable (db ?a2) pid = Some row \<and> rowId row = rowId row0"
          using Some by (cases "pid = ?p") (auto simp: u)
      qed
      have 3: "\<forall>pid. case lastOk rK (ks @ [k]) pid of
                  None \<Rightarrow> keywordTable (db ?a2) pid = keywordTable (db a) pid
                           \<and> keywordIdMap ?a2 pid = keywordIdMap a pid
                | Some k' \<Rightarrow> (\<exists>row. keywordTable (db ?a2) pid = Some row \<and> rowData row = k'
                                    \<and> keywordIdMap ?a2 pid = Some (rowId row))"
      proof
        fix pid
        show "case lastOk rK (ks @ [k]) pid of
                  None \<Rightarrow> keywordTable (db ?a2) pid = keywordTable (db a) pid
                           \<and> keywordIdMap ?a2 pid = keywordIdMap a pid
                | Some k' \<Rightarrow> (\<exists>row. keywordTable (db ?a2) pid = Some row \<and> rowData row = k'
                                    \<and> keywordIdMap ?a2 pid = Some (rowId row))"
        proof (cases "pid = ?p")
          case True
          then show ?thesis by (simp add: l u)
        next
          case False
          have e: "keywordTable (db ?a2) pid = keywordTable (db ?a1) pid"
               "keywordIdMap ?a2 pid = keywordIdMap ?a1 pid"
            using False by (simp_all add: u)
          have "case lastOk rK ks pid of
                  None \<Rightarrow> keywordTable (db ?a1) pid = keywordTable (db a) pid
                           \<and> keywordIdMap ?a1 pid = keywordIdMap a pid
                | Some k' \<Rightarrow> (\<exists>row. keywordTable (db ?a1) pid = Some row \<and> rowData row = k'
                                    \<and> keywordIdMap ?a1 pid = Some (rowId row))"
            using IH by blast
          then show ?thesis
            unfolding l e using False by simp
        qed
      qed
      have 4: "(\<forall>pid. lastOk rK (ks @ [k]) pid \<noteq> None \<longrightarrow> keywordTable (db a) pid \<noteq> None)
                 \<longrightarrow> nextId (db ?a2) = nextId (db a)"
      proof
        assume h: "\<forall>pid. lastOk rK (ks @ [k]) pid \<noteq> None \<longrightarrow> keywordTable (db a) pid \<noteq> None"
        have "\<forall>pid. lastOk rK ks pid \<noteq> None \<longrightarrow> keywordTable (db a) pid \<noteq> None"
          using h by (simp add: l)
        then have "nextId (db ?a1) = nextId (db a)" using IH by blast
        then show "nextId (db ?a2) = nextId (db a)" by (simp add: u)
      qed
      show ?thesis
        unfolding f kwEffect_def using 1 2 3 4 by blast
    next
      case n: None
      note u = importKeyword_insert[of rK k ?a1 rB, OF None n]
      have 1: "rankingTable (db ?a2) = rankingTable (db a)"
        using IH by (simp add: u)
      have 2: "\<forall>pid row0. keywordTable (db a) pid = Some row0 \<longrightarrow>
                 (\<exists>row. keywordTable (db ?a2) pid = Some row \<and> rowId row = rowId row0)"
      proof (intro allI impI)
        fix pid row0 assume "keywordTable (db a) pid = Some row0"
        then obtain row1 where "keywordTable (db ?a1) pid = Some row1" "rowId row1 = rowId row0"
          using IH by blast
        then show "\<exists>row. keywordTable (db ?a2) pid = Some row \<and> rowId row = rowId row0"
          using n by (cases "pid = ?p") (auto simp: u)
      qed
      have 3: "\<forall>pid. case lastOk rK (ks @ [k]) pid of
                  None \<Rightarrow> keywordTable (db ?a2) pid = keywordTable (db a) pid
                           \<and> keywordIdMap ?a2 pid = keywordIdMap a pid
                | Some k' \<Rightarrow> (\<exists>row. keywordTable (db ?a2) pid = Some row \<and> rowData row = k'
                                    \<and> keywordIdMap ?a2 pid = Some (rowId row))"
      proof
        fix pid
        show "case lastOk rK (ks @ [k]) pid of
                  None \<Rightarrow> keywordTable (db ?a2) pid = keywordTable (db a) pid
                           \<and> keywordIdMap ?a2 pid = keywordIdMap a pid
                | Some k' \<Rightarrow> (\<exists>row. keywordTable (db ?a2) pid = Some row \<and> rowData row = k'
                                    \<and> keywordIdMap ?a2 pid = Some (rowId row))"
        proof (cases "pid = ?p")
          case True
          then show ?thesis by (simp add: l u)
        next
          case False
          have e: "keywordTable (db ?a2) pid = keywordTable (db ?a1) pid"
               "keywordIdMap ?a2 pid = keywordIdMap ?a1 pid"
            using False by (simp_all add: u)
          have "case lastOk rK ks pid of
                  None \<Rightarrow> keywordTable (db ?a1) pid = keywordTable (db a) pid
                           \<and> keywordIdMap ?a1 pid = keywordIdMap a pid
                | Some k' \<Rightarrow> (\<exists>row. keywordTable (db ?a1) pid = Some row \<and> rowData row = k'
                                    \<and> keywordIdMap ?a1 pid = Some (rowId row))"
            using IH by blast
          then show ?thesis
            unfolding l e using False by simp
        qed
      qed
      have 4: "(\<forall>pid. lastOk rK (ks @ [k]) pid \<noteq> None \<longrightarrow> keywordTable (db a) pid \<noteq> None)
                 \<longrightarrow> nextId (db ?a2) = nextId (db a)"
      proof
        assume h: "\<forall>pid. lastOk rK (ks @ [k]) pid \<noteq> None \<longrightarrow> keywordTable (db a) pid \<noteq> None"
        then have "keywordTable (db a) ?p \<noteq> None" by (simp add: l)
        then have "keywordTable (db ?a1) ?p \<noteq> None" using IH by fastforce
        then show "nextId (db ?a2) = nextId (db a)" using n by simp
      qed
      show ?thesis
        unfolding f kwEffect_def using 1 2 3 4 by blast
    qed
  qed
qed

text \<open>
  The effect of the fact stage on the store: the rows of the batches the store accepts
  are put into the fact table, in order; the entity table and \<open>keywordIdMap\<close> stay.
\<close>

definition putRows :: "rankingRow list \<Rightarrow> (kwid \<times> isodate \<rightharpoonup> number)
     \<Rightarrow> (kwid \<times> isodate \<rightharpoonup> number)" where
  "putRows rows t = fold (\<lambda>(k, d, r) t. t((k, d) \<mapsto> r)) rows t"

function batchesApplied ::
  "(rankingRow list \<Rightarrow> string option) \<Rightarrow> kwid \<Rightarrow> PascalRankingData list \<Rightarrow> nat \<Rightarrow> rankingRow list" where
  "batchesApplied rB keywordId rs i =
     (if i < length rs then
        (let rows = map (\<lambda>r. (keywordId, PascalRankingData.date r, PascalRankingData.rank r))
                        (take 100 (drop i rs))
         in case rB rows of
              Some msg \<Rightarrow> []
            | None \<Rightarrow> rows @ batchesApplied rB keywordId rs (i + 100))
      else [])"
  by pat_completeness auto
termination
  by (relation "measure (\<lambda>(rB, keywordId, rs, i). length rs - i)") auto

declare batchesApplied.simps [simp del]

definition groupOps ::
  "(rankingRow list \<Rightarrow> string option) \<Rightarrow> (number \<rightharpoonup> kwid) \<Rightarrow> number \<times> PascalRankingData list
     \<Rightarrow> rankingRow list" where
  "groupOps rB idm g =
     (case idm (fst g) of None \<Rightarrow> [] | Some keywordId \<Rightarrow> batchesApplied rB keywordId (snd g) 0)"

definition rankOps ::
  "(rankingRow list \<Rightarrow> string option) \<Rightarrow> (number \<rightharpoonup> kwid) \<Rightarrow> PascalRankingData list
     \<Rightarrow> rankingRow list" where
  "rankOps rB idm rs = concat (map (groupOps rB idm) (rankingsByKeyword rs))"

definition rkEffect :: "rankingRow list \<Rightarrow> tables run \<Rightarrow> tables run \<Rightarrow> bool" where
  "rkEffect ops st st' =
     (keywordIdMap st' = keywordIdMap st
      \<and> keywordTable (db st') = keywordTable (db st)
      \<and> nextId (db st') = nextId (db st)
      \<and> rankingTable (db st') = putRows ops (rankingTable (db st)))"

lemma putRows_append: "putRows (a @ b) t = putRows b (putRows a t)"
  by (simp add: putRows_def)

lemma rkEffect_refl: "rkEffect [] st st"
  by (simp add: rkEffect_def putRows_def)

lemma rkEffect_trans:
  "rkEffect a st st1 \<Longrightarrow> rkEffect b st1 st2 \<Longrightarrow> rkEffect (a @ b) st st2"
  by (simp add: rkEffect_def putRows_append)

lemma rkEffect_addError: "rkEffect ops st st1 \<Longrightarrow> rkEffect ops st (addError e st1)"
  by (simp add: rkEffect_def addError_def)

lemma importRankingBatches_effect:
  "\<exists>st'. (importRankingBatches (storeGateway rK rB) keywordId rs i st = Inr st'
           \<or> (\<exists>e. importRankingBatches (storeGateway rK rB) keywordId rs i st = Inl (e, st')))
         \<and> rkEffect (batchesApplied rB keywordId rs i) st st'"
proof (induction "length rs - i" arbitrary: i st rule: less_induct)
  case less
  let ?G = "storeGateway rK rB"
  show ?case
  proof (cases "i < length rs")
    case False
    then have "importRankingBatches ?G keywordId rs i st = Inr st"
      by (subst importRankingBatches.simps) simp
    moreover have "batchesApplied rB keywordId rs i = []"
      using False by (subst batchesApplied.simps) simp
    ultimately show ?thesis using rkEffect_refl by fastforce
  next
    case True
    let ?rows = "map (\<lambda>r. (keywordId, PascalRankingData.date r, PascalRankingData.rank r))
                     (take 100 (drop i rs))"
    show ?thesis
    proof (cases "rB ?rows")
      case (Some msg)
      let ?st1 = "st\<lparr>db := db st, requests := requests st @ [BulkUpsertRankings ?rows]\<rparr>"
      have "importRankingBatches ?G keywordId rs i st = Inl (GatewayError msg, ?st1)"
        using True Some
        by (subst importRankingBatches.simps)
           (simp add: Let_def storeGateway_def bulkUpsertFacts_def)
      moreover have "batchesApplied rB keywordId rs i = []"
        using True Some by (subst batchesApplied.simps) (simp add: Let_def)
      moreover have "rkEffect [] st ?st1"
        by (simp add: rkEffect_def putRows_def)
      ultimately show ?thesis by fastforce
    next
      case None
      let ?st1 = "st\<lparr>db := (db st)\<lparr>rankingTable := putRows ?rows (rankingTable (db st))\<rparr>,
                      requests := requests st @ [BulkUpsertRankings ?rows]\<rparr>"
      let ?st2 = "?st1\<lparr>result := (result ?st1)\<lparr>importedRankings :=
                          importedRankings (result ?st1) + length ?rows\<rparr>\<rparr>"
      have step: "importRankingBatches ?G keywordId rs i st =
                    importRankingBatches ?G keywordId rs (i + 100) ?st2"
        using True None
        by (subst importRankingBatches.simps)
           (simp add: Let_def storeGateway_def bulkUpsertFacts_def putRows_def)
      have ops: "batchesApplied rB keywordId rs i = ?rows @ batchesApplied rB keywordId rs (i + 100)"
        using True None by (subst batchesApplied.simps) (simp add: Let_def)
      have e1: "rkEffect ?rows st ?st2"
        by (simp add: rkEffect_def)
      have "length rs - (i + 100) < length rs - i" using True by simp
      from less[OF this, of ?st2] obtain st' where
        r: "importRankingBatches ?G keywordId rs (i + 100) ?st2 = Inr st'
            \<or> (\<exists>e. importRankingBatches ?G keywordId rs (i + 100) ?st2 = Inl (e, st'))"
        and e2: "rkEffect (batchesApplied rB keywordId rs (i + 100)) ?st2 st'"
        by blast
      show ?thesis
        unfolding step ops using r rkEffect_trans[OF e1 e2] by blast
    qed
  qed
qed

lemma importRankingGroup_effect:
  "rkEffect (groupOps rB (keywordIdMap st) g) st
     (snd (importRankingGroup (storeGateway rK rB) cb tot g (p, st)))"
proof -
  obtain pid rs where g: "g = (pid, rs)" by (cases g)
  show ?thesis
  proof (cases "keywordIdMap st pid")
    case None
    then show ?thesis
      by (simp add: g importRankingGroup_def groupOps_def rkEffect_addError rkEffect_refl)
  next
    case (Some keywordId)
    from importRankingBatches_effect[of rK rB keywordId rs 0 st] obtain st1 where
      r: "importRankingBatches (storeGateway rK rB) keywordId rs 0 st = Inr st1
          \<or> (\<exists>e. importRankingBatches (storeGateway rK rB) keywordId rs 0 st = Inl (e, st1))"
      and e: "rkEffect (batchesApplied rB keywordId rs 0) st st1"
      by blast
    have ops: "groupOps rB (keywordIdMap st) g = batchesApplied rB keywordId rs 0"
      using Some by (simp add: g groupOps_def)
    from r show ?thesis
    proof
      assume "importRankingBatches (storeGateway rK rB) keywordId rs 0 st = Inr st1"
      then show ?thesis
        unfolding ops using Some e
        by (simp add: g importRankingGroup_def Let_def progress_throws rkEffect_addError)
    next
      assume "\<exists>e. importRankingBatches (storeGateway rK rB) keywordId rs 0 st = Inl (e, st1)"
      then show ?thesis
        unfolding ops using Some e
        by (auto simp: g importRankingGroup_def rkEffect_addError)
    qed
  qed
qed

lemma rkEffect_idMap: "rkEffect ops st st' \<Longrightarrow> keywordIdMap st' = keywordIdMap st"
  by (simp add: rkEffect_def)

lemma fold_importRankingGroup_effect:
  "rkEffect (concat (map (groupOps rB (keywordIdMap st)) gs)) st
     (snd (fold (importRankingGroup (storeGateway rK rB) cb tot) gs (p, st)))"
proof (induction gs arbitrary: p st)
  case Nil
  then show ?case by (simp add: rkEffect_refl)
next
  case (Cons g gs)
  obtain p1 st1 where s: "importRankingGroup (storeGateway rK rB) cb tot g (p, st) = (p1, st1)"
    by (cases "importRankingGroup (storeGateway rK rB) cb tot g (p, st)")
  have e1: "rkEffect (groupOps rB (keywordIdMap st) g) st st1"
    using importRankingGroup_effect[of rB st g rK cb tot p] by (simp add: s)
  have e2: "rkEffect (concat (map (groupOps rB (keywordIdMap st)) gs)) st1
              (snd (fold (importRankingGroup (storeGateway rK rB) cb tot) gs (p1, st1)))"
    using Cons.IH[of st1 p1] by (simp add: rkEffect_idMap[OF e1])
  show ?case
    using rkEffect_trans[OF e1 e2] by (simp add: s)
qed

lemma importRankings_effect:
  "rkEffect (rankOps rB (keywordIdMap st) rs) st (importRankings (storeGateway rK rB) cb rs st)"
  unfolding importRankings_def rankOps_def Let_def
  by (rule fold_importRankingGroup_effect)

text \<open>Putting the same rows twice is putting them once.\<close>

lemma putRows_map_add:
  "putRows rows t = t ++ map_of (rev (map (\<lambda>(k, d, r). ((k, d), r)) rows))"
proof (induction rows arbitrary: t)
  case Nil
  then show ?case by (simp add: putRows_def)
next
  case (Cons x rows)
  obtain k d r where x: "x = (k, d, r)" by (cases x)
  let ?m = "map_of (rev (map (\<lambda>(k, d, r). ((k, d), r)) rows))"
  have "putRows (x # rows) t = putRows rows (t((k, d) \<mapsto> r))"
    by (simp add: putRows_def x)
  also have "\<dots> = t((k, d) \<mapsto> r) ++ ?m"
    by (rule Cons.IH)
  also have "t((k, d) \<mapsto> r) = t ++ map_of [((k, d), r)]"
    by simp
  also have "(t ++ map_of [((k, d), r)]) ++ ?m = t ++ (map_of [((k, d), r)] ++ ?m)"
    by (rule map_add_assoc[symmetric])
  also have "map_of [((k, d), r)] ++ ?m
               = map_of (rev (map (\<lambda>(k, d, r). ((k, d), r)) (x # rows)))"
    by (simp add: x map_of_append del: map_of.simps)
  finally show ?case .
qed

lemma putRows_idem: "putRows rows (putRows rows t) = putRows rows t"
proof -
  have "\<And>(f :: kwid \<times> isodate \<rightharpoonup> number) g. (g ++ f) ++ f = g ++ f"
    by (simp add: map_add_def fun_eq_iff split: option.splits)
  then show ?thesis by (simp add: putRows_map_add)
qed

text \<open>
  The store a run ends with, whether the body returns or throws. For a given input and
  callback it is the store after the upserts of a fixed list of entities, followed or
  not by the fact stage; which list, and whether the fact stage runs, does not depend
  on the store the run starts from.
\<close>

definition finalDb :: "'s step \<Rightarrow> 's" where
  "finalDb r = (case r of Inl (e, st) \<Rightarrow> db st | Inr st \<Rightarrow> db st)"

lemma store_importPascalCsv:
  assumes "importPascalCsv gw cb s csvContent = Inr out"
  shows "store out =
           finalDb (importBody gw cb csvContent
                      \<lparr>result = initialResult, db = s, requests = [], keywordIdMap = Map.empty\<rparr>)"
  using assms
  by (auto simp: importPascalCsv_def finalDb_def outcomeOf_def addError_def
      split: sum.splits prod.splits)

lemma importPascalCsv_total: "\<exists>out. importPascalCsv gw cb s csvContent = Inr out"
  by (auto simp: importPascalCsv_def split: sum.splits prod.splits)

lemma importBody_shape:
  "\<exists>ks wr rks. \<forall>st0. \<exists>a. db a = db st0 \<and> keywordIdMap a = keywordIdMap st0 \<and>
      finalDb (importBody gw cb csvContent st0) =
        db (if wr then importRankings gw cb rks (fold (importKeyword gw) ks a)
            else fold (importKeyword gw) ks a)"
proof -
  have stop: "\<forall>st0. finalDb (importBody gw cb csvContent st0) = db st0 \<Longrightarrow> ?thesis"
  proof -
    assume h: "\<forall>st0. finalDb (importBody gw cb csvContent st0) = db st0"
    have "\<forall>st0. \<exists>a. db a = db st0 \<and> keywordIdMap a = keywordIdMap st0 \<and>
            finalDb (importBody gw cb csvContent st0) =
              db (if False then importRankings gw cb [] (fold (importKeyword gw) [] a)
                  else fold (importKeyword gw) [] a)"
      using h by (intro allI exI) simp
    then show ?thesis by blast
  qed
  show ?thesis
  proof (cases "throws cb 1 \<or> validatePascalCsv csvContent \<noteq> [] \<or> throws cb 2")
    case True
    then have "\<forall>st0. finalDb (importBody gw cb csvContent st0) = db st0"
      by (auto simp: importBody_def andThen_def progress_throws finalDb_def Let_def)
    then show ?thesis by (rule stop)
  next
    case False
    then have n: "\<not> throws cb 1" "validatePascalCsv csvContent = []" "\<not> throws cb 2" by auto
    show ?thesis
    proof (cases "parsePascalCsv csvContent")
      case (Inl e)
      have "\<forall>st0. finalDb (importBody gw cb csvContent st0) = db st0"
        using n Inl
        by (simp add: importBody_def andThen_def progress_throws finalDb_def Let_def)
      then show ?thesis by (rule stop)
    next
      case (Inr d)
      let ?st3 = "\<lambda>st0 :: 'a run. st0\<lparr>result := (result st0)
                              \<lparr>totalKeywords := length (csvKeywords d),
                               totalRankings := length (csvRankings d)\<rparr>\<rparr>"
      show ?thesis
      proof (cases "csvKeywords d = [] \<or> throws cb 3")
        case True
        then have "\<forall>st0. finalDb (importBody gw cb csvContent st0) = db st0"
          using n Inr
          by (auto simp: importBody_def andThen_def progress_throws finalDb_def Let_def
              addError_def)
        then show ?thesis by (rule stop)
      next
        case False
        then have m: "csvKeywords d \<noteq> []" "\<not> throws cb 3" by auto
        obtain ks ok where
          K: "\<forall>st. importKeywords gw cb (csvKeywords d) 0 st =
                (if ok then Inr (fold (importKeyword gw) ks st)
                 else Inl (CallbackError, fold (importKeyword gw) ks st))"
          using importKeywords_shape[of gw cb "csvKeywords d" 0] by blast
        show ?thesis
        proof (cases "ok \<and> \<not> throws cb 7")
          case False
          have "\<forall>st0. finalDb (importBody gw cb csvContent st0)
                      = db (fold (importKeyword gw) ks (?st3 st0))"
            using n Inr m K False
            by (auto simp: importBody_def andThen_def progress_throws finalDb_def Let_def)
          then have "\<forall>st0. \<exists>a. db a = db st0 \<and> keywordIdMap a = keywordIdMap st0 \<and>
              finalDb (importBody gw cb csvContent st0) =
                db (if False then importRankings gw cb [] (fold (importKeyword gw) ks a)
                    else fold (importKeyword gw) ks a)"
            by (intro allI exI[of _ "?st3 _"]) simp
          then show ?thesis by blast
        next
          case True
          have "\<forall>st0. finalDb (importBody gw cb csvContent st0)
                      = db (importRankings gw cb (csvRankings d)
                              (fold (importKeyword gw) ks (?st3 st0)))"
            using n Inr m K True
            by (auto simp: importBody_def andThen_def progress_throws finalDb_def Let_def
                finish_def)
          then have "\<forall>st0. \<exists>a. db a = db st0 \<and> keywordIdMap a = keywordIdMap st0 \<and>
              finalDb (importBody gw cb csvContent st0) =
                db (if True then importRankings gw cb (csvRankings d) (fold (importKeyword gw) ks a)
                    else fold (importKeyword gw) ks a)"
            by (intro allI exI[of _ "?st3 _"]) simp
          then show ?thesis by blast
        qed
      qed
    qed
  qed
qed

text \<open>
  The entity upserts of one list, sent to the store they have already been sent to,
  leave the entity table, the id counter and the ids they return as they are.
\<close>

lemma kwEffect_twice:
  assumes 1: "kwEffect rK ks s sk Map.empty idm1"
    and t: "keywordTable s1 = keywordTable sk" and n: "nextId s1 = nextId sk"
    and 2: "kwEffect rK ks s1 sk2 Map.empty idm2"
  shows "keywordTable sk2 = keywordTable s1" and "nextId sk2 = nextId s1" and "idm2 = idm1"
    and "rankingTable sk2 = rankingTable s1"
proof -
  have c1: "case lastOk rK ks pid of
              None \<Rightarrow> keywordTable sk pid = keywordTable s pid \<and> idm1 pid = Map.empty pid
            | Some k \<Rightarrow> (\<exists>row. keywordTable sk pid = Some row \<and> rowData row = k
                                \<and> idm1 pid = Some (rowId row))" for pid
    using 1 unfolding kwEffect_def by blast
  have c2: "case lastOk rK ks pid of
              None \<Rightarrow> keywordTable sk2 pid = keywordTable s1 pid \<and> idm2 pid = Map.empty pid
            | Some k \<Rightarrow> (\<exists>row. keywordTable sk2 pid = Some row \<and> rowData row = k
                                \<and> idm2 pid = Some (rowId row))" for pid
    using 2 unfolding kwEffect_def by blast
  have keep: "keywordTable s1 pid = Some row0 \<Longrightarrow>
                \<exists>row. keywordTable sk2 pid = Some row \<and> rowId row = rowId row0" for pid row0
    using 2 unfolding kwEffect_def by blast
  have nx: "(\<forall>pid. lastOk rK ks pid \<noteq> None \<longrightarrow> keywordTable s1 pid \<noteq> None)
              \<longrightarrow> nextId sk2 = nextId s1"
    using 2 unfolding kwEffect_def by blast
  have row: "keywordTable sk2 pid = keywordTable s1 pid \<and> idm2 pid = idm1 pid" for pid
  proof (cases "lastOk rK ks pid")
    case None
    then show ?thesis using c1[of pid] c2[of pid] t by simp
  next
    case (Some k)
    obtain row1 where r1: "keywordTable sk pid = Some row1" "rowData row1 = k"
        "idm1 pid = Some (rowId row1)"
      using c1[of pid] Some by auto
    obtain row2 where r2: "keywordTable sk2 pid = Some row2" "rowData row2 = k"
        "idm2 pid = Some (rowId row2)"
      using c2[of pid] Some by auto
    have "keywordTable s1 pid = Some row1" using r1 t by simp
    then obtain row where "keywordTable sk2 pid = Some row" "rowId row = rowId row1"
      using keep by blast
    then have "rowId row2 = rowId row1" using r2 by simp
    then have "row2 = row1" using r1 r2 by (simp add: PascalKeyword.equality)
    then show ?thesis using r1 r2 t by simp
  qed
  show "keywordTable sk2 = keywordTable s1" using row by (simp add: fun_eq_iff)
  show "idm2 = idm1" using row by (simp add: fun_eq_iff)
  show "rankingTable sk2 = rankingTable s1" using 2 unfolding kwEffect_def by blast
  have "\<forall>pid. lastOk rK ks pid \<noteq> None \<longrightarrow> keywordTable s1 pid \<noteq> None"
  proof (intro allI impI)
    fix pid assume "lastOk rK ks pid \<noteq> None"
    then obtain k where "lastOk rK ks pid = Some k" by auto
    then have "\<exists>row. keywordTable sk pid = Some row"
      using c1[of pid] by auto
    then show "keywordTable s1 pid \<noteq> None" using t by auto
  qed
  then show "nextId sk2 = nextId s1" using nx by blast
qed

lemma reimport_store:
  assumes "importPascalCsv (storeGateway rK rB) cb s0 csvContent = Inr out1"
    and "importPascalCsv (storeGateway rK rB) cb (store out1) csvContent = Inr out2"
  shows "store out2 = store out1"
proof -
  let ?G = "storeGateway rK rB"
  let ?init = "\<lambda>s. \<lparr>result = initialResult, db = s, requests = [], keywordIdMap = Map.empty\<rparr>"
  obtain ks wr rks where
    sh: "\<forall>st0. \<exists>a. db a = db st0 \<and> keywordIdMap a = keywordIdMap st0 \<and>
           finalDb (importBody ?G cb csvContent st0) =
             db (if wr then importRankings ?G cb rks (fold (importKeyword ?G) ks a)
                 else fold (importKeyword ?G) ks a)"
    using importBody_shape[of ?G cb csvContent] by blast
  define s1 where "s1 = store out1"
  define s2 where "s2 = store out2"
  have e1: "s1 = finalDb (importBody ?G cb csvContent (?init s0))"
    unfolding s1_def by (rule store_importPascalCsv[OF assms(1)])
  have e2: "s2 = finalDb (importBody ?G cb csvContent (?init s1))"
    unfolding s1_def s2_def by (rule store_importPascalCsv[OF assms(2)])
  from spec[OF sh, of "?init s0"]
  obtain a where a: "db a = s0" "keywordIdMap a = Map.empty"
    and f1: "s1 = db (if wr then importRankings ?G cb rks (fold (importKeyword ?G) ks a)
                     else fold (importKeyword ?G) ks a)"
    unfolding e1[symmetric] by auto
  from spec[OF sh, of "?init s1"]
  obtain b where b: "db b = s1" "keywordIdMap b = Map.empty"
    and f2: "s2 = db (if wr then importRankings ?G cb rks (fold (importKeyword ?G) ks b)
                     else fold (importKeyword ?G) ks b)"
    unfolding e2[symmetric] by auto
  let ?a' = "fold (importKeyword ?G) ks a"
  let ?b' = "fold (importKeyword ?G) ks b"
  have ka: "kwEffect rK ks s0 (db ?a') Map.empty (keywordIdMap ?a')"
    using kwEffect_fold[of rK ks a rB] by (simp add: a)
  have kb: "kwEffect rK ks s1 (db ?b') Map.empty (keywordIdMap ?b')"
    using kwEffect_fold[of rK ks b rB] by (simp add: b)
  note ra = importRankings_effect[of rB ?a' rks rK cb, unfolded rkEffect_def]
  note rb = importRankings_effect[of rB ?b' rks rK cb, unfolded rkEffect_def]
  have t1: "keywordTable s1 = keywordTable (db ?a')" "nextId s1 = nextId (db ?a')"
    using f1 ra by (auto split: if_splits)
  note tw = kwEffect_twice[OF ka t1 kb]
  have kt: "keywordTable s2 = keywordTable s1" and ni: "nextId s2 = nextId s1"
    using f2 rb tw by (auto split: if_splits)
  have rt: "rankingTable s2 = rankingTable s1"
  proof (cases wr)
    case False
    then show ?thesis using f2 tw by simp
  next
    case True
    let ?ops = "rankOps rB (keywordIdMap ?a') rks"
    have "rankingTable s1 = putRows ?ops (rankingTable (db ?a'))"
      using True f1 ra by simp
    moreover have "rankingTable s2 = putRows ?ops (rankingTable s1)"
      using True f2 rb tw by simp
    ultimately show ?thesis by (simp add: putRows_idem)
  qed
  have "s2 = s1" using kt ni rt by (simp add: tables.equality)
  then show ?thesis by (simp add: s1_def s2_def)
qed

subsection \<open>Importing the same content twice\<close>

text \<open>
  Claim C3. Importing the same content twice through the orchestrator leaves the store
  unchanged after the second run. For a store with keyed upserts, whatever requests it
  rejects, for every progress callback, starting store and input: both runs return, and
  the store after the second run is the store after the first, so the number of
  entities is the same and every fact has the rank it had. The entity upsert finds the
  row of the natural identifier and returns its surrogate id again, and the fact upsert
  writes the same rank under the same (surrogate id, date).
\<close>

theorem reimport_leaves_store:
  "\<exists>out1 out2.
      importPascalCsv (storeGateway rK rB) cb s csvContent = Inr out1
    \<and> importPascalCsv (storeGateway rK rB) cb (store out1) csvContent = Inr out2
    \<and> store out2 = store out1
    \<and> card (dom (keywordTable (store out2))) = card (dom (keywordTable (store out1)))
    \<and> rankingTable (store out2) = rankingTable (store out1)"
proof -
  obtain out1 where 1: "importPascalCsv (storeGateway rK rB) cb s csvContent = Inr out1"
    using importPascalCsv_total[of "storeGateway rK rB" cb s csvContent] by blast
  obtain out2 where
    2: "importPascalCsv (storeGateway rK rB) cb (store out1) csvContent = Inr out2"
    using importPascalCsv_total[of "storeGateway rK rB" cb "store out1" csvContent] by blast
  have "store out2 = store out1" by (rule reimport_store[OF 1 2])
  then show ?thesis using 1 2 by simp
qed

theorem reimport_leaves_store_witness:
  "\<exists>out1 out2.
      importPascalCsv (storeGateway rejectKeywordInt4 rejectBatchInt4) None emptyTables
        (js ''Pascal ID,keyword,2025/1/1,2025/1/2'' @ [10] @ js ''7,seo,2,3'') = Inr out1
    \<and> importPascalCsv (storeGateway rejectKeywordInt4 rejectBatchInt4) None (store out1)
        (js ''Pascal ID,keyword,2025/1/1,2025/1/2'' @ [10] @ js ''7,seo,2,3'') = Inr out2
    \<and> store out2 = store out1
    \<and> map_option rowId (keywordTable (store out1) (Finite 7)) = Some 0
    \<and> keywordTable (store out1) (Finite 8) = None
    \<and> nextId (store out1) = 1
    \<and> rankingTable (store out1) (0, isoDate 2025 1 1) = Some (Finite 2)
    \<and> rankingTable (store out1) (0, isoDate 2025 1 2) = Some (Finite 3)
    \<and> success (returned out1) \<and> success (returned out2)"
proof -
  let ?G = "storeGateway rejectKeywordInt4 rejectBatchInt4"
  let ?csv = "js ''Pascal ID,keyword,2025/1/1,2025/1/2'' @ [10] @ js ''7,seo,2,3''"
  let ?r1 = "projr (importPascalCsv ?G None emptyTables ?csv)"
  let ?r2 = "projr (importPascalCsv ?G None (store ?r1) ?csv)"
  from reimport_leaves_store[of rejectKeywordInt4 rejectBatchInt4 None emptyTables ?csv]
  obtain out1 out2 where
    1: "importPascalCsv ?G None emptyTables ?csv = Inr out1"
    and 2: "importPascalCsv ?G None (store out1) ?csv = Inr out2"
    and 3: "store out2 = store out1"
    by blast
  have o1: "out1 = ?r1" using 1 by simp
  have o2: "out2 = projr (importPascalCsv ?G None (store out1) ?csv)" using 2 by simp
  have a: "map_option rowId (keywordTable (store out1) (Finite 7)) = Some 0" unfolding o1 by code_simp
  have b: "keywordTable (store out1) (Finite 8) = None" unfolding o1 by code_simp
  have c: "nextId (store out1) = 1" unfolding o1 by code_simp
  have d: "rankingTable (store out1) (0, isoDate 2025 1 1) = Some (Finite 2)" unfolding o1 by code_simp
  have e: "rankingTable (store out1) (0, isoDate 2025 1 2) = Some (Finite 3)" unfolding o1 by code_simp
  have f: "success (returned out1)" unfolding o1 by code_simp
  have g: "success (returned out2)" unfolding o2 o1 by code_simp
  show ?thesis
    using 1 2 3 a b c d e f g by blast
qed

end
